theory Spec2Isabelle
  imports Main
begin

section \<open>Python strings and POSIX paths\<close>

text \<open>
  The script \<^verbatim>\<open>fetch_vcdist.py\<close> computes with Python \<^verbatim>\<open>str\<close> values; they are
  modelled as \<^typ>\<open>string\<close> (ASCII text). \<^verbatim>\<open>os.path\<close> is taken to be \<^verbatim>\<open>posixpath\<close>
  (separator \<^verbatim>\<open>/\<close>), the form in which the layout of the destination is documented.
\<close>

text \<open>\<^verbatim>\<open>s.partition(sep)\<close> for a one-character separator: the text before the first
  occurrence, the separator (empty when absent) and the text after it.\<close>

definition partition_str :: "char \<Rightarrow> string \<Rightarrow> string \<times> string \<times> string" where
  "partition_str sep s =
     (let before = takeWhile (\<lambda>c. c \<noteq> sep) s; rest = dropWhile (\<lambda>c. c \<noteq> sep) s
      in case rest of [] \<Rightarrow> (before, [], []) | c # after \<Rightarrow> (before, [c], after))"

text \<open>\<^verbatim>\<open>version.partition('.')[0]\<close>: the text of the major version.\<close>

definition major_text :: "string \<Rightarrow> string" where
  "major_text version = fst (partition_str (CHR ''.'') version)"

text \<open>\<^verbatim>\<open>s.endswith(suffix)\<close>.\<close>

definition endswith :: "string \<Rightarrow> string \<Rightarrow> bool" where
  "endswith s suf = (length suf \<le> length s \<and> drop (length s - length suf) s = suf)"

text \<open>\<^verbatim>\<open>posixpath.join(a, b)\<close>: an absolute \<open>b\<close> replaces \<open>a\<close>; otherwise one separator is
  put between them unless \<open>a\<close> is empty or already ends with one.\<close>

definition join2 :: "string \<Rightarrow> string \<Rightarrow> string" where
  "join2 a b =
     (if b \<noteq> [] \<and> hd b = CHR ''/'' then b
      else if a = [] \<or> last a = CHR ''/'' then a @ b
      else a @ ''/'' @ b)"

text \<open>\<^verbatim>\<open>os.path.join(a, *p)\<close> folds the two-argument case from the left.\<close>

definition join :: "string \<Rightarrow> string list \<Rightarrow> string" where
  "join a p = foldl join2 a p"

text \<open>\<^verbatim>\<open>posixpath.basename(p)\<close>: the text after the last separator.\<close>

definition basename :: "string \<Rightarrow> string" where
  "basename p = rev (takeWhile (\<lambda>c. c \<noteq> CHR ''/'') (rev p))"

text \<open>\<^verbatim>\<open>posixpath.split(p)\<close>: head and tail around the last separator; trailing
  separators are stripped from the head unless it consists of separators only.\<close>

definition rstrip_sep :: "string \<Rightarrow> string" where
  "rstrip_sep p = rev (dropWhile (\<lambda>c. c = CHR ''/'') (rev p))"

definition split_path :: "string \<Rightarrow> string \<times> string" where
  "split_path p =
     (let tail = basename p;
          head = take (length p - length tail) p
      in (if head \<noteq> [] \<and> \<not> list_all (\<lambda>c. c = CHR ''/'') head then rstrip_sep head else head,
          tail))"

subsection \<open>Errors\<close>

text \<open>The exceptions the script raises itself (\<^verbatim>\<open>ValueError\<close>, \<^verbatim>\<open>SystemError\<close>) and
  those of the library calls it makes. Each carries its message or the offending path.\<close>

datatype error =
    ValueError string
  | SystemError string
  | FileNotFoundError string
  | FileExistsError string
  | NotADirectoryError string
  | IsADirectoryError string
  | OSError string
  | RequestException string
  | BadZipFile string

subsection \<open>\<^verbatim>\<open>int(str)\<close>\<close>

text \<open>
  Python's \<^verbatim>\<open>int(s)\<close> in base 10 (Python 3.6 and later, ASCII text): surrounding
  whitespace (space, tab, line feed, vertical tab, form feed, carriage return) is
  ignored, one sign is allowed, then decimal digits, where a single underscore may stand
  between two digits. Anything else raises \<^verbatim>\<open>ValueError\<close>, whose message is kept
  without the quoting of \<^verbatim>\<open>repr\<close>. Whitespace and digits outside ASCII, and the limit
  on the number of digits of later versions, are not modelled.
\<close>

definition is_space :: "char \<Rightarrow> bool" where
  "is_space c =
     (let n = (of_char c :: nat) in (9 \<le> n \<and> n \<le> 13) \<or> n = 32)"

definition is_digit :: "char \<Rightarrow> bool" where
  "is_digit c = (let n = (of_char c :: nat) in 48 \<le> n \<and> n \<le> 57)"

definition digit_val :: "char \<Rightarrow> nat" where
  "digit_val c = of_char c - 48"

definition strip :: "string \<Rightarrow> string" where
  "strip s = rev (dropWhile is_space (rev (dropWhile is_space s)))"

fun parse_digits :: "nat \<Rightarrow> string \<Rightarrow> nat option" where
  "parse_digits acc [] = Some acc"
| "parse_digits acc [c] = (if is_digit c then Some (acc * 10 + digit_val c) else None)"
| "parse_digits acc (c # d # ds) =
     (if is_digit c then parse_digits (acc * 10 + digit_val c) (d # ds)
      else if c = CHR ''_'' \<and> is_digit d then parse_digits (acc * 10 + digit_val d) ds
      else None)"

definition int_error :: "string \<Rightarrow> error" where
  "int_error s = ValueError (''invalid literal for int() with base 10: '' @ s)"

definition py_int :: "string \<Rightarrow> error + int" where
  "py_int s =
     (let t = strip s;
          neg = (t \<noteq> [] \<and> hd t = CHR ''-'');
          body = (if t \<noteq> [] \<and> (hd t = CHR ''-'' \<or> hd t = CHR ''+'') then tl t else t)
      in case body of
           [] \<Rightarrow> Inl (int_error s)
         | c # cs \<Rightarrow>
             if is_digit c then
               (case parse_digits (digit_val c) cs of
                  None \<Rightarrow> Inl (int_error s)
                | Some n \<Rightarrow> Inr (if neg then - int n else int n))
             else Inl (int_error s))"

section \<open>The machine: file system, network, processes\<close>

text \<open>
  Everything the script does is an effect on the file system, an HTTP request, an
  external process or a line printed. The file system maps a path (the literal string
  the script passes; \<^verbatim>\<open>.\<close>, \<^verbatim>\<open>..\<close> and repeated separators are not interpreted) to a
  plain file with its bytes or to a directory with the names \<^verbatim>\<open>os.listdir\<close> returns for
  it. The empty path is the current directory.
\<close>

datatype node = File string | Dir "string list"

type_synonym filesystem = "string \<Rightarrow> node option"

text \<open>What a run leaves for an observer besides the file system: each HTTP request,
  each \<^verbatim>\<open>subprocess.call\<close> with its argument vector, each \<^verbatim>\<open>ZipFile.extractall\<close> with
  archive and target, and each line printed.\<close>

datatype event =
    HttpGet string
  | Subprocess "string list"
  | ZipExtract string string
  | Print string

text \<open>The body of an HTTP response as \<^verbatim>\<open>iter_content\<close> delivers it: the chunks, and
  the exception that ends the stream early, if any.\<close>

record response =
  chunks :: "string list"
  stream_error :: "error option"

text \<open>
  The parts of the environment the script does not control: what a server answers, what
  an external program does to the file system (or the error of launching it), what
  unpacking a zip archive with given bytes into a target does, and the candidate names
  \<^verbatim>\<open>tempfile\<close> draws.
\<close>

record world =
  http_get :: "string \<Rightarrow> error + response"
  run_process :: "string list \<Rightarrow> filesystem \<Rightarrow> error + filesystem"
  zip_extractall :: "string \<Rightarrow> string \<Rightarrow> filesystem \<Rightarrow> error + filesystem"
  tmp_name :: "nat \<Rightarrow> string"

record state =
  fs :: filesystem
  trace :: "event list"
  tmp_seq :: nat

type_synonym 'a action = "state \<Rightarrow> (error + 'a) \<times> state"

text \<open>Sequencing: an exception ends the computation and keeps the state reached.\<close>

definition and_then :: "'a action \<Rightarrow> ('a \<Rightarrow> 'b action) \<Rightarrow> 'b action" where
  "and_then m f s = (case m s of (Inl e, s1) \<Rightarrow> (Inl e, s1) | (Inr x, s1) \<Rightarrow> f x s1)"

definition succeed :: "'a \<Rightarrow> 'a action" where
  "succeed x s = (Inr x, s)"

definition raise :: "error \<Rightarrow> 'a action" where
  "raise e s = (Inl e, s)"

text \<open>A \<^verbatim>\<open>for\<close> loop over a list whose body may raise.\<close>

fun for_each :: "('a \<Rightarrow> unit action) \<Rightarrow> 'a list \<Rightarrow> unit action" where
  "for_each body [] s = (Inr (), s)"
| "for_each body (x # xs) s =
     (case body x s of (Inl e, s1) \<Rightarrow> (Inl e, s1) | (Inr u, s1) \<Rightarrow> for_each body xs s1)"

subsection \<open>File-system calls\<close>

definition isfile :: "filesystem \<Rightarrow> string \<Rightarrow> bool" where
  "isfile f p = (case f p of Some (File c) \<Rightarrow> True | Some (Dir ns) \<Rightarrow> False | None \<Rightarrow> False)"

definition isdir :: "filesystem \<Rightarrow> string \<Rightarrow> bool" where
  "isdir f p = (case f p of Some (Dir ns) \<Rightarrow> True | Some (File c) \<Rightarrow> False | None \<Rightarrow> False)"

definition path_exists :: "filesystem \<Rightarrow> string \<Rightarrow> bool" where
  "path_exists f p = (f p \<noteq> None)"

definition listdir :: "string \<Rightarrow> string list action" where
  "listdir p s =
     (case fs s p of
        Some (Dir ns) \<Rightarrow> (Inr ns, s)
      | Some (File c) \<Rightarrow> (Inl (NotADirectoryError p), s)
      | None \<Rightarrow> (Inl (FileNotFoundError p), s))"

text \<open>\<^verbatim>\<open>os.mkdir\<close>: the path must be new and its parent a directory.\<close>

definition mkdir :: "string \<Rightarrow> unit action" where
  "mkdir p s =
     (if path_exists (fs s) p then (Inl (FileExistsError p), s)
      else case fs s (fst (split_path p)) of
             Some (Dir ns) \<Rightarrow>
               (Inr (), s\<lparr>fs := (fs s)(fst (split_path p) \<mapsto> Dir (ns @ [snd (split_path p)]),
                                        p \<mapsto> Dir [])\<rparr>)
           | Some (File c) \<Rightarrow> (Inl (NotADirectoryError p), s)
           | None \<Rightarrow> (Inl (FileNotFoundError p), s))"

text \<open>\<^verbatim>\<open>os.makedirs(name)\<close> as in \<^verbatim>\<open>os.py\<close>: the missing ancestors are made first (a
  \<^verbatim>\<open>FileExistsError\<close> from that is passed over), then the leaf with \<^verbatim>\<open>mkdir\<close>. The early
  return of \<^verbatim>\<open>os.py\<close> for a last component \<^verbatim>\<open>.\<close> is left out, since paths are literal
  here: the leaf is made under that name.\<close>

definition makedirs_split :: "string \<Rightarrow> string \<times> string" where
  "makedirs_split name =
     (if snd (split_path name) = [] then split_path (fst (split_path name))
      else split_path name)"

lemma length_basename: "length (basename p) \<le> length p"
proof -
  have "length (takeWhile (\<lambda>c. c \<noteq> CHR ''/'') (rev p)) \<le> length (rev p)"
    by (rule length_takeWhile_le)
  then show ?thesis by (simp add: basename_def)
qed

lemma length_rstrip_sep: "length (rstrip_sep p) \<le> length p"
proof -
  have "length (dropWhile (\<lambda>c. c = CHR ''/'') (rev p)) \<le> length (rev p)"
    by (rule length_dropWhile_le)
  then show ?thesis by (simp add: rstrip_sep_def)
qed

lemma split_path_head_bound:
  "length (fst (split_path p)) \<le> length p - length (basename p)"
proof -
  let ?h = "take (length p - length (basename p)) p"
  have "length (rstrip_sep ?h) \<le> length ?h" by (rule length_rstrip_sep)
  moreover have "length ?h \<le> length p - length (basename p)" by simp
  ultimately have "length (rstrip_sep ?h) \<le> length p - length (basename p)"
    by (rule order_trans)
  then show ?thesis by (simp add: split_path_def Let_def)
qed

lemma split_path_head_le: "length (fst (split_path p)) \<le> length p"
  using split_path_head_bound [of p] by arith

lemma split_path_head_less:
  assumes "snd (split_path p) \<noteq> []"
  shows "length (fst (split_path p)) < length p"
proof -
  from assms have "basename p \<noteq> []" by (simp add: split_path_def Let_def)
  then have "0 < length (basename p)" by simp
  with length_basename [of p] have "length p - length (basename p) < length p" by arith
  with split_path_head_bound [of p] show ?thesis by arith
qed

lemma makedirs_split_less:
  assumes "snd (makedirs_split name) \<noteq> []"
  shows "length (fst (makedirs_split name)) < length name"
proof (cases "snd (split_path name) = []")
  case True
  with assms have "snd (split_path (fst (split_path name))) \<noteq> []"
    by (simp add: makedirs_split_def)
  then have "length (fst (split_path (fst (split_path name)))) < length (fst (split_path name))"
    by (rule split_path_head_less)
  with split_path_head_le [of name] True show ?thesis
    by (simp add: makedirs_split_def)
next
  case False
  then show ?thesis using split_path_head_less [of name] by (simp add: makedirs_split_def)
qed

function makedirs :: "string \<Rightarrow> unit action" where
  "makedirs name s =
     (case (if fst (makedirs_split name) \<noteq> [] \<and> snd (makedirs_split name) \<noteq> []
               \<and> \<not> path_exists (fs s) (fst (makedirs_split name))
            then (case makedirs (fst (makedirs_split name)) s of
                    (Inl (FileExistsError p), s1) \<Rightarrow> (Inr (), s1)
                  | (Inl e, s1) \<Rightarrow> (Inl e, s1)
                  | (Inr u, s1) \<Rightarrow> (Inr (), s1))
            else (Inr (), s)) of
        (Inl e, s1) \<Rightarrow> (Inl e, s1)
      | (Inr u, s1) \<Rightarrow> mkdir name s1)"
  by pat_completeness auto
termination
  by (relation "measure (\<lambda>(name, s). length name)") (auto simp: makedirs_split_less)

text \<open>\<^verbatim>\<open>open(dest, 'wb')\<close> creates the file or truncates it; \<^verbatim>\<open>f.write(chunk)\<close> appends.\<close>

definition open_wb :: "string \<Rightarrow> unit action" where
  "open_wb dest s =
     (case fs s dest of
        Some (Dir ns) \<Rightarrow> (Inl (IsADirectoryError dest), s)
      | Some (File c) \<Rightarrow> (Inr (), s\<lparr>fs := (fs s)(dest \<mapsto> File [])\<rparr>)
      | None \<Rightarrow>
          (case fs s (fst (split_path dest)) of
             Some (Dir ns) \<Rightarrow>
               (Inr (), s\<lparr>fs := (fs s)(fst (split_path dest) \<mapsto> Dir (ns @ [snd (split_path dest)]),
                                        dest \<mapsto> File [])\<rparr>)
           | Some (File c) \<Rightarrow> (Inl (NotADirectoryError dest), s)
           | None \<Rightarrow> (Inl (FileNotFoundError dest), s)))"

definition file_write :: "string \<Rightarrow> string \<Rightarrow> unit action" where
  "file_write dest chunk s =
     (case fs s dest of
        Some (File c) \<Rightarrow> (Inr (), s\<lparr>fs := (fs s)(dest \<mapsto> File (c @ chunk))\<rparr>)
      | Some (Dir ns) \<Rightarrow> (Inl (IsADirectoryError dest), s)
      | None \<Rightarrow> (Inl (FileNotFoundError dest), s))"

text \<open>\<^verbatim>\<open>tempfile.mkdtemp()\<close>: up to \<^verbatim>\<open>TMP_MAX\<close> candidate names are tried with
  \<^verbatim>\<open>mkdir\<close>; a name that exists already is passed over, any other error is raised.\<close>

definition TMP_MAX :: nat where
  "TMP_MAX = 10000"

fun mkdtemp_loop :: "world \<Rightarrow> nat \<Rightarrow> string action" where
  "mkdtemp_loop w 0 s =
     (Inl (FileExistsError ''No usable temporary directory name found''), s)"
| "mkdtemp_loop w (Suc n) s =
     (case mkdir (tmp_name w (tmp_seq s)) (s\<lparr>tmp_seq := tmp_seq s + 1\<rparr>) of
        (Inl (FileExistsError p), s1) \<Rightarrow> mkdtemp_loop w n s1
      | (Inl e, s1) \<Rightarrow> (Inl e, s1)
      | (Inr u, s1) \<Rightarrow> (Inr (tmp_name w (tmp_seq s)), s1))"

definition mkdtemp :: "world \<Rightarrow> string action" where
  "mkdtemp w = mkdtemp_loop w TMP_MAX"

subsection \<open>Output, processes, archives\<close>

definition print :: "string \<Rightarrow> unit action" where
  "print msg s = (Inr (), s\<lparr>trace := trace s @ [Print msg]\<rparr>)"

text \<open>\<^verbatim>\<open>subprocess.call(args)\<close>: the call is recorded; launching may fail; the exit
  status is returned to a caller that never looks at it.\<close>

definition subprocess_call :: "world \<Rightarrow> string list \<Rightarrow> unit action" where
  "subprocess_call w args s =
     (case run_process w args (fs s) of
        Inl e \<Rightarrow> (Inl e, s\<lparr>trace := trace s @ [Subprocess args]\<rparr>)
      | Inr f \<Rightarrow> (Inr (), s\<lparr>fs := f, trace := trace s @ [Subprocess args]\<rparr>))"

text \<open>\<^verbatim>\<open>with zipfile.ZipFile(zip_path, 'r') as z: z.extractall(target)\<close>.\<close>

definition zipfile_extractall :: "world \<Rightarrow> string \<Rightarrow> string \<Rightarrow> unit action" where
  "zipfile_extractall w zip_path target s =
     (case fs s zip_path of
        None \<Rightarrow> (Inl (FileNotFoundError zip_path), s)
      | Some (Dir ns) \<Rightarrow> (Inl (IsADirectoryError zip_path), s)
      | Some (File content) \<Rightarrow>
          (case zip_extractall w content target (fs s) of
             Inl e \<Rightarrow> (Inl e, s\<lparr>trace := trace s @ [ZipExtract zip_path target]\<rparr>)
           | Inr f \<Rightarrow> (Inr (), s\<lparr>fs := f, trace := trace s @ [ZipExtract zip_path target]\<rparr>)))"

section \<open>The script\<close>

subsection \<open>\<^verbatim>\<open>download_file\<close>\<close>

text \<open>The loop over \<^verbatim>\<open>r.iter_content\<close>: empty keep-alive chunks are not written.\<close>

definition write_chunk :: "string \<Rightarrow> string \<Rightarrow> unit action" where
  "write_chunk dest chunk = (if chunk \<noteq> [] then file_write dest chunk else succeed ())"

definition download_file :: "world \<Rightarrow> string \<Rightarrow> string \<Rightarrow> string action" where
  "download_file w uri dest s =
     (if isfile (fs s) dest then (Inr dest, s)
      else case http_get w uri of
             Inl e \<Rightarrow> (Inl e, s\<lparr>trace := trace s @ [HttpGet uri]\<rparr>)
           | Inr r \<Rightarrow>
               and_then (open_wb dest)
                 (\<lambda>u. and_then (for_each (write_chunk dest) (chunks r))
                   (\<lambda>u. case stream_error r of
                          Some e \<Rightarrow> raise e
                        | None \<Rightarrow> succeed dest))
                 (s\<lparr>trace := trace s @ [HttpGet uri]\<rparr>))"

subsection \<open>\<^verbatim>\<open>fetch_runtimes\<close>\<close>

text \<open>The catalog of the source: every entry but one is commented out there.\<close>

definition runtime_downloads :: "(string \<times> string) list" where
  "runtime_downloads =
     [(''14.42.34438.0'',
       ''https://download.visualstudio.microsoft.com/download/pr/285b28c7-3cf9-47fb-9be8-01cf5323a8df/8F9FB1B3CFE6E5092CF1225ECD6659DAB7CE50B8BF935CB79BFEDE1F3C895240/VC_redist.x64.exe'')]"

text \<open>
  \<^verbatim>\<open>fetch_runtimes\<close> is a generator: each turn of its loop runs when the consumer asks
  for the next item. One turn, for one catalog entry, either skips the entry
  (\<^verbatim>\<open>continue\<close>, result \<open>None\<close>) or downloads the installer and yields the version with
  the path of the file. \<^verbatim>\<open>not include_old_versions and int(...) < 14\<close> evaluates
  \<^verbatim>\<open>int\<close> only when the flag is false.
\<close>

definition fetch_runtimes_next ::
    "world \<Rightarrow> string \<Rightarrow> bool \<Rightarrow> string \<times> string \<Rightarrow> (string \<times> string) option action" where
  "fetch_runtimes_next w download_directory include_old_versions entry s =
     (case (if include_old_versions then Inr False
            else (case py_int (major_text (fst entry)) of
                    Inl e \<Rightarrow> Inl e
                  | Inr major \<Rightarrow> Inr (major < 14))) of
        Inl e \<Rightarrow> (Inl e, s)
      | Inr True \<Rightarrow> (Inr None, s)
      | Inr False \<Rightarrow>
          and_then
            (download_file w (snd entry)
               (join download_directory [fst entry @ ''_'' @ basename (snd entry)]))
            (\<lambda>destination. succeed (Some (fst entry, destination))) s)"

subsection \<open>\<^verbatim>\<open>fetch_7zip\<close>, \<^verbatim>\<open>extract_old_installer\<close>\<close>

definition fetch_7zip :: "world \<Rightarrow> string \<Rightarrow> string action" where
  "fetch_7zip w download_directory =
     (let exe_path = join download_directory [''__7zr.exe''];
          tool_archive = join download_directory [''7z2301-extra.7z''];
          tools_path = join download_directory [''_7z'']
      in and_then
           (\<lambda>s. if \<not> isfile (fs s) exe_path
                then and_then (download_file w ''https://7-zip.org/a/7zr.exe'' exe_path)
                       (\<lambda>d. succeed ()) s
                else (Inr (), s))
           (\<lambda>u. and_then
             (\<lambda>s. if \<not> isfile (fs s) tool_archive
                  then and_then
                         (download_file w ''https://7-zip.org/a/7z2301-extra.7z'' tool_archive)
                         (\<lambda>d. succeed ()) s
                  else (Inr (), s))
             (\<lambda>u. and_then
               (\<lambda>s. if \<not> isdir (fs s) tools_path
                    then subprocess_call w
                           [exe_path, ''x'', tool_archive, ''-o'' @ tools_path, ''-aoa''] s
                    else (Inr (), s))
               (\<lambda>u. succeed (join tools_path [''7za.exe''])))))"

definition extract_old_installer :: "world \<Rightarrow> string \<Rightarrow> string \<Rightarrow> string action" where
  "extract_old_installer w seven_zip_exe self_extracting_archive =
     and_then (mkdtemp w)
       (\<lambda>output_directory.
         and_then
           (subprocess_call w
              [seven_zip_exe, ''x'', ''-o'' @ output_directory, self_extracting_archive,
               ''-i!*.cab''])
           (\<lambda>u. and_then (listdir output_directory)
             (\<lambda>names.
               if names = []
               then raise (ValueError (''Failed to extract any cabinet file from '' @
                                        self_extracting_archive @ ''.''))
               else succeed output_directory)))"

subsection \<open>\<^verbatim>\<open>fetch_wix\<close>, \<^verbatim>\<open>extract_burn_bundle\<close>, \<^verbatim>\<open>find_cabs\<close>, \<^verbatim>\<open>extract_cab\<close>\<close>

definition fetch_wix :: "world \<Rightarrow> string \<Rightarrow> string action" where
  "fetch_wix w download_directory =
     (let zip_path = join download_directory [''__wix.zip'']
      in and_then
           (\<lambda>s. if \<not> isfile (fs s) zip_path
                then and_then
                       (download_file w
                          (''https://github.com/wixtoolset/wix3/releases/download/'' @
                           ''wix3111rtm/wix311-binaries.zip'') zip_path)
                       (\<lambda>d. succeed ()) s
                else (Inr (), s))
           (\<lambda>u. and_then
             (zipfile_extractall w zip_path (join download_directory [''__wix'']))
             (\<lambda>u. succeed (join download_directory [''__wix'']))))"

definition extract_burn_bundle :: "world \<Rightarrow> string \<Rightarrow> string \<Rightarrow> string action" where
  "extract_burn_bundle w wix_tool_location bundle_exe =
     (let dark_exe = join wix_tool_location [''dark.exe'']
      in and_then (mkdtemp w)
           (\<lambda>output_directory.
             and_then
               (subprocess_call w [dark_exe, ''-nologo'', ''-x'', output_directory, bundle_exe])
               (\<lambda>u. succeed output_directory)))"

text \<open>\<^verbatim>\<open>find_cabs\<close> is a generator too; it reads the directory once, when first asked,
  and what it yields afterwards depends on those names only, so the list of all its
  items is what the consumer sees.\<close>

definition find_cabs :: "string \<Rightarrow> string list action" where
  "find_cabs directory =
     (let base_path = join directory [''AttachedContainer'', ''packages'']
      in and_then (listdir base_path)
           (\<lambda>names. succeed
              (map (\<lambda>name. join base_path [name, ''cab1.cab''])
                 (filter (\<lambda>name. endswith name ''_amd64'') names))))"

definition extract_cab :: "world \<Rightarrow> string \<Rightarrow> string \<Rightarrow> unit action" where
  "extract_cab w cab_source destination =
     subprocess_call w [''expand.exe'', ''-F:*'', cab_source, destination]"

subsection \<open>\<^verbatim>\<open>fetch_all\<close>\<close>

text \<open>The two extraction paths of the loop body: the legacy one through 7-Zip (lines
  375 to 378 of the source) and the one for WiX bundles (lines 382 and 383).\<close>

definition legacy_extraction ::
    "world \<Rightarrow> string \<Rightarrow> string \<Rightarrow> string \<Rightarrow> unit action" where
  "legacy_extraction w download_directory installer output_directory =
     and_then (fetch_7zip w download_directory)
       (\<lambda>seven_zip_exe. and_then (extract_old_installer w seven_zip_exe installer)
         (\<lambda>cab_directory. and_then (listdir cab_directory)
           (\<lambda>cabs. for_each
              (\<lambda>cab. extract_cab w (join cab_directory [cab]) output_directory) cabs)))"

definition bundle_extraction ::
    "world \<Rightarrow> string \<Rightarrow> string \<Rightarrow> string \<Rightarrow> unit action" where
  "bundle_extraction w wix_tool_location installer output_directory =
     and_then (extract_burn_bundle w wix_tool_location installer)
       (\<lambda>directory. and_then (find_cabs directory)
         (\<lambda>cabs. for_each (\<lambda>cab. extract_cab w cab output_directory) cabs))"

text \<open>Lines 357 and 358: the output directory is made unless it is a directory already.\<close>

definition ensure_directory :: "string \<Rightarrow> unit action" where
  "ensure_directory output_directory s =
     (if \<not> isdir (fs s) output_directory then makedirs output_directory s else (Inr (), s))"

text \<open>The body of the loop of \<^verbatim>\<open>fetch_all\<close> for one yielded pair (lines 355 to 383).\<close>

definition fetch_all_body ::
    "world \<Rightarrow> string \<Rightarrow> string \<Rightarrow> string \<Rightarrow> string \<Rightarrow> string \<Rightarrow> unit action" where
  "fetch_all_body w base_directory download_directory wix_tool_location ver installer =
     (let output_directory = join base_directory [''vcruntime_'' @ ver]
      in and_then (ensure_directory output_directory)
           (\<lambda>u s. case py_int (major_text ver) of
                    Inl e \<Rightarrow> (Inl e, s)
                  | Inr major_version \<Rightarrow>
                      and_then (listdir output_directory)
                        (\<lambda>names.
                          if names \<noteq> [] then print (''Already have '' @ ver)
                          else if major_version = 10
                          then print ''Cannot extract Visual C++ 2010 runtime. Skipping.''
                          else if major_version < 11
                          then legacy_extraction w download_directory installer
                                 output_directory
                          else bundle_extraction w wix_tool_location installer
                                 output_directory) s))"

text \<open>The \<^verbatim>\<open>for\<close> loop of \<^verbatim>\<open>fetch_all\<close> over the generator: a turn of the generator,
  then the body for the pair it yields, entry by entry.\<close>

fun fetch_all_loop ::
    "world \<Rightarrow> string \<Rightarrow> string \<Rightarrow> string \<Rightarrow> bool \<Rightarrow> (string \<times> string) list \<Rightarrow> unit action"
where
  "fetch_all_loop w base_directory download_directory wix_tool_location include_old_versions
       [] s = (Inr (), s)"
| "fetch_all_loop w base_directory download_directory wix_tool_location include_old_versions
       (entry # entries) s =
     (case fetch_runtimes_next w download_directory include_old_versions entry s of
        (Inl e, s1) \<Rightarrow> (Inl e, s1)
      | (Inr None, s1) \<Rightarrow>
          fetch_all_loop w base_directory download_directory wix_tool_location
            include_old_versions entries s1
      | (Inr (Some (ver, installer)), s1) \<Rightarrow>
          (case fetch_all_body w base_directory download_directory wix_tool_location
                  ver installer s1 of
             (Inl e, s2) \<Rightarrow> (Inl e, s2)
           | (Inr u, s2) \<Rightarrow>
               fetch_all_loop w base_directory download_directory wix_tool_location
                 include_old_versions entries s2))"

text \<open>\<^verbatim>\<open>fetch_all\<close> over a given catalog, and over the catalog of the source.\<close>

definition fetch_all_catalog ::
    "(string \<times> string) list \<Rightarrow> world \<Rightarrow> string \<Rightarrow> bool \<Rightarrow> unit action" where
  "fetch_all_catalog catalog w base_directory include_old_versions s =
     (let download_directory = join base_directory [''Downloads'']
      in if \<not> isdir (fs s) download_directory
         then (Inl (SystemError (''The download directory does not exist: '' @
                                  download_directory)), s)
         else and_then (fetch_wix w download_directory)
                (\<lambda>wix_tool_location.
                  fetch_all_loop w base_directory download_directory wix_tool_location
                    include_old_versions catalog) s)"

definition fetch_all :: "world \<Rightarrow> string \<Rightarrow> bool \<Rightarrow> unit action" where
  "fetch_all = fetch_all_catalog runtime_downloads"

section \<open>Basic facts about the machine\<close>

text \<open>The equation of \<^verbatim>\<open>makedirs\<close> is unfolded by hand where it is needed.\<close>

declare makedirs.simps [simp del]

text \<open>An action grows the trace by events that all satisfy a predicate: the trace is
  only ever appended to.\<close>

definition grows_by :: "(event \<Rightarrow> bool) \<Rightarrow> 'a action \<Rightarrow> bool" where
  "grows_by P m = (\<forall>s. \<exists>evs. trace (snd (m s)) = trace s @ evs \<and> list_all P evs)"

lemma grows_byI:
  assumes "\<And>s. \<exists>evs. trace (snd (m s)) = trace s @ evs \<and> list_all P evs"
  shows "grows_by P m"
  using assms by (simp add: grows_by_def)

lemma grows_byD:
  assumes "grows_by P m"
  obtains evs where "trace (snd (m s)) = trace s @ evs" and "list_all P evs"
  using assms unfolding grows_by_def by blast

lemma grows_by_quiet:
  assumes "\<And>s. trace (snd (m s)) = trace s"
  shows "grows_by P m"
proof (rule grows_byI)
  fix s
  have "trace (snd (m s)) = trace s @ [] \<and> list_all P []" using assms by simp
  then show "\<exists>evs. trace (snd (m s)) = trace s @ evs \<and> list_all P evs" by blast
qed

lemma grows_by_succeed: "grows_by P (succeed x)"
  by (rule grows_by_quiet) (simp add: succeed_def)

lemma grows_by_raise: "grows_by P (raise e)"
  by (rule grows_by_quiet) (simp add: raise_def)

lemma grows_by_and_then:
  assumes m: "grows_by P m" and f: "\<And>x. grows_by P (f x)"
  shows "grows_by P (and_then m f)"
proof (rule grows_byI)
  fix s
  obtain r s1 where ms: "m s = (r, s1)" by (cases "m s")
  from m obtain evs where e1: "trace (snd (m s)) = trace s @ evs" and p1: "list_all P evs"
    by (rule grows_byD)
  show "\<exists>evs. trace (snd (and_then m f s)) = trace s @ evs \<and> list_all P evs"
  proof (cases r)
    case (Inl e)
    with ms e1 p1 show ?thesis by (auto simp: and_then_def)
  next
    case (Inr x)
    from f obtain evs2 where e2: "trace (snd (f x s1)) = trace s1 @ evs2"
      and p2: "list_all P evs2" by (rule grows_byD)
    from ms Inr e1 e2 have "trace (snd (and_then m f s)) = trace s @ (evs @ evs2)"
      by (simp add: and_then_def)
    moreover from p1 p2 have "list_all P (evs @ evs2)" by simp
    ultimately show ?thesis by blast
  qed
qed

lemma grows_by_for_each:
  assumes body: "\<And>x. grows_by P (body x)"
  shows "grows_by P (for_each body xs)"
proof (induction xs)
  case Nil
  show ?case by (rule grows_by_quiet) simp
next
  case (Cons x xs)
  have "for_each body (x # xs) = and_then (body x) (\<lambda>u. for_each body xs)"
    by (rule ext) (simp add: and_then_def split: prod.splits sum.splits)
  with grows_by_and_then [OF body [of x], of "\<lambda>u. for_each body xs"] Cons
  show ?case by simp
qed

lemma grows_by_when:
  assumes "grows_by P m"
  shows "grows_by P (\<lambda>s. if c s then m s else (Inr x, s))"
proof (rule grows_byI)
  fix s
  from assms obtain evs where "trace (snd (m s)) = trace s @ evs" and "list_all P evs"
    by (rule grows_byD)
  then show "\<exists>evs. trace (snd (if c s then m s else (Inr x, s))) = trace s @ evs \<and> list_all P evs"
    by (cases "c s") (auto intro: exI [of _ "[]"])
qed

lemma listdir_state: "snd (listdir p s) = s"
  by (simp add: listdir_def split: option.splits node.splits)

lemma mkdir_trace: "trace (snd (mkdir p s)) = trace s"
  by (simp add: mkdir_def split: option.splits node.splits)

definition makedirs_pre :: "string \<Rightarrow> state \<Rightarrow> state" where
  "makedirs_pre name s =
     (if fst (makedirs_split name) \<noteq> [] \<and> snd (makedirs_split name) \<noteq> []
         \<and> \<not> path_exists (fs s) (fst (makedirs_split name))
      then snd (makedirs (fst (makedirs_split name)) s) else s)"

lemma makedirs_unfold:
  "makedirs name s = mkdir name (makedirs_pre name s) \<or>
   (\<exists>e. makedirs name s = (Inl e, makedirs_pre name s))"
  by (subst (1 2) makedirs.simps)
    (simp add: makedirs_pre_def split: prod.splits sum.splits error.splits)

lemma makedirs_trace: "trace (snd (makedirs name s)) = trace s"
proof (induction name s rule: makedirs.induct)
  case (1 name s)
  then have pre: "trace (makedirs_pre name s) = trace s"
    by (simp add: makedirs_pre_def)
  from makedirs_unfold [of name s] show ?case
  proof
    assume "makedirs name s = mkdir name (makedirs_pre name s)"
    with pre show ?thesis by (simp add: mkdir_trace)
  next
    assume "\<exists>e. makedirs name s = (Inl e, makedirs_pre name s)"
    with pre show ?thesis by auto
  qed
qed

lemma mkdir_creates:
  assumes "mkdir p s = (Inr u, s1)"
  shows "fs s1 p = Some (Dir [])"
  using assms by (auto simp: mkdir_def split: if_splits option.splits node.splits)

lemma makedirs_creates:
  assumes "makedirs name s = (Inr u, s1)"
  shows "fs s1 name = Some (Dir [])"
proof -
  from makedirs_unfold [of name s] assms
  have "mkdir name (makedirs_pre name s) = (Inr u, s1)" by auto
  then show ?thesis by (rule mkdir_creates)
qed

lemma isfile_iff: "isfile f p \<longleftrightarrow> (\<exists>c. f p = Some (File c))"
  by (simp add: isfile_def split: option.splits node.splits)

lemma isdir_iff: "isdir f p \<longleftrightarrow> (\<exists>ns. f p = Some (Dir ns))"
  by (simp add: isdir_def split: option.splits node.splits)

lemma mkdir_keeps_file:
  assumes "fs s q = Some (File c)"
  shows "fs (snd (mkdir p s)) q = Some (File c)"
  using assms by (auto simp: mkdir_def path_exists_def split: option.splits node.splits)

lemma makedirs_keeps_file:
  "fs s q = Some (File c) \<Longrightarrow> fs (snd (makedirs name s)) q = Some (File c)"
proof (induction name s rule: makedirs.induct)
  case (1 name s)
  then have pre: "fs (makedirs_pre name s) q = Some (File c)"
    by (simp add: makedirs_pre_def)
  from makedirs_unfold [of name s] show ?case
  proof
    assume "makedirs name s = mkdir name (makedirs_pre name s)"
    with pre show ?thesis by (simp add: mkdir_keeps_file)
  next
    assume "\<exists>e. makedirs name s = (Inl e, makedirs_pre name s)"
    with pre show ?thesis by auto
  qed
qed

lemma open_wb_trace: "trace (snd (open_wb p s)) = trace s"
  by (simp add: open_wb_def split: option.splits node.splits)

lemma file_write_trace: "trace (snd (file_write p c s)) = trace s"
  by (simp add: file_write_def split: option.splits node.splits)

lemma grows_by_listdir: "grows_by P (listdir p)"
  by (rule grows_by_quiet) (simp add: listdir_state)

lemma grows_by_write_chunk: "grows_by P (write_chunk dest chunk)"
  by (rule grows_by_quiet) (simp add: write_chunk_def file_write_trace succeed_def)

lemma grows_by_step:
  assumes "\<And>s. \<exists>e. trace (snd (m s)) = trace s @ [e] \<and> P e"
  shows "grows_by P m"
proof (rule grows_byI)
  fix s
  from assms obtain e where "trace (snd (m s)) = trace s @ [e]" and "P e" by blast
  then have "trace (snd (m s)) = trace s @ [e] \<and> list_all P [e]" by simp
  then show "\<exists>evs. trace (snd (m s)) = trace s @ evs \<and> list_all P evs" by blast
qed

lemma grows_by_print: "P (Print msg) \<Longrightarrow> grows_by P (print msg)"
  by (rule grows_by_step) (simp add: print_def)

lemma grows_by_subprocess_call:
  "P (Subprocess args) \<Longrightarrow> grows_by P (subprocess_call w args)"
  by (rule grows_by_step) (simp add: subprocess_call_def split: sum.splits)

lemma grows_by_extract_cab:
  "(\<And>args. P (Subprocess args)) \<Longrightarrow> grows_by P (extract_cab w src dst)"
  by (simp add: extract_cab_def grows_by_subprocess_call)

lemma mkdtemp_loop_trace: "trace (snd (mkdtemp_loop w n s)) = trace s"
proof (induction n arbitrary: s)
  case 0
  show ?case by simp
next
  case (Suc n)
  have "trace (snd (mkdir (tmp_name w (tmp_seq s)) (s\<lparr>tmp_seq := tmp_seq s + 1\<rparr>))) = trace s"
    by (simp add: mkdir_trace)
  with Suc show ?case
    by (auto split: prod.splits sum.splits error.splits)
qed

lemma grows_by_mkdtemp: "grows_by P (mkdtemp w)"
  by (rule grows_by_quiet) (simp add: mkdtemp_def mkdtemp_loop_trace)

lemma download_file_eq:
  "download_file w uri dest =
     (\<lambda>s. if isfile (fs s) dest then (Inr dest, s)
          else and_then (\<lambda>s. (case http_get w uri of Inl e \<Rightarrow> Inl e | Inr r \<Rightarrow> Inr r,
                              s\<lparr>trace := trace s @ [HttpGet uri]\<rparr>))
                 (\<lambda>r. and_then (open_wb dest)
                   (\<lambda>u. and_then (for_each (write_chunk dest) (chunks r))
                     (\<lambda>u. case stream_error r of Some e \<Rightarrow> raise e | None \<Rightarrow> succeed dest))) s)"
  by (rule ext) (simp add: download_file_def and_then_def split: sum.splits)

lemma grows_by_download_file:
  assumes "P (HttpGet uri)"
  shows "grows_by P (download_file w uri dest)"
proof -
  have req: "grows_by P (\<lambda>s. (case http_get w uri of Inl e \<Rightarrow> Inl e | Inr r \<Rightarrow> Inr r,
                              s\<lparr>trace := trace s @ [HttpGet uri]\<rparr>))"
    using assms by (intro grows_by_step) simp
  have fin: "grows_by P (case stream_error r of Some e \<Rightarrow> raise e | None \<Rightarrow> succeed dest)" for r
    by (cases "stream_error r") (simp_all add: grows_by_raise grows_by_succeed)
  have rest: "grows_by P (and_then (open_wb dest)
                   (\<lambda>u. and_then (for_each (write_chunk dest) (chunks r))
                     (\<lambda>u. case stream_error r of Some e \<Rightarrow> raise e | None \<Rightarrow> succeed dest)))" for r
    by (intro grows_by_and_then grows_by_for_each grows_by_write_chunk fin
        grows_by_quiet open_wb_trace)
  have "grows_by P (\<lambda>s. if \<not> isfile (fs s) dest
          then and_then (\<lambda>s. (case http_get w uri of Inl e \<Rightarrow> Inl e | Inr r \<Rightarrow> Inr r,
                              s\<lparr>trace := trace s @ [HttpGet uri]\<rparr>))
                 (\<lambda>r. and_then (open_wb dest)
                   (\<lambda>u. and_then (for_each (write_chunk dest) (chunks r))
                     (\<lambda>u. case stream_error r of Some e \<Rightarrow> raise e | None \<Rightarrow> succeed dest))) s
          else (Inr dest, s))"
    by (intro grows_by_when grows_by_and_then req rest)
  moreover have "download_file w uri dest = (\<lambda>s. if \<not> isfile (fs s) dest
          then and_then (\<lambda>s. (case http_get w uri of Inl e \<Rightarrow> Inl e | Inr r \<Rightarrow> Inr r,
                              s\<lparr>trace := trace s @ [HttpGet uri]\<rparr>))
                 (\<lambda>r. and_then (open_wb dest)
                   (\<lambda>u. and_then (for_each (write_chunk dest) (chunks r))
                     (\<lambda>u. case stream_error r of Some e \<Rightarrow> raise e | None \<Rightarrow> succeed dest))) s
          else (Inr dest, s))"
    by (subst download_file_eq) (rule ext, simp)
  ultimately show ?thesis by simp
qed

lemma grows_by_fetch_7zip:
  assumes h: "\<And>u. P (HttpGet u)" and p: "\<And>args. P (Subprocess args)"
  shows "grows_by P (fetch_7zip w dd)"
  unfolding fetch_7zip_def Let_def
  by (intro grows_by_and_then grows_by_when grows_by_download_file grows_by_succeed
      grows_by_subprocess_call h p)

lemma grows_by_extract_old_installer:
  assumes p: "\<And>args. P (Subprocess args)"
  shows "grows_by P (extract_old_installer w exe archive)"
proof -
  have "grows_by P (if names = [] then raise e else succeed d)" for names e and d :: string
    by (simp add: grows_by_raise grows_by_succeed)
  then show ?thesis
    unfolding extract_old_installer_def
    by (intro grows_by_and_then grows_by_mkdtemp grows_by_subprocess_call grows_by_listdir p)
qed

lemma grows_by_legacy_extraction:
  assumes h: "\<And>u. P (HttpGet u)" and p: "\<And>args. P (Subprocess args)"
  shows "grows_by P (legacy_extraction w dd installer out)"
  unfolding legacy_extraction_def
  by (intro grows_by_and_then grows_by_fetch_7zip grows_by_extract_old_installer
      grows_by_listdir grows_by_for_each grows_by_extract_cab h p)

lemma grows_by_extract_burn_bundle:
  assumes p: "\<And>args. P (Subprocess args)"
  shows "grows_by P (extract_burn_bundle w wix bundle)"
  unfolding extract_burn_bundle_def Let_def
  by (intro grows_by_and_then grows_by_mkdtemp grows_by_subprocess_call grows_by_succeed p)

lemma grows_by_find_cabs: "grows_by P (find_cabs d)"
  unfolding find_cabs_def Let_def
  by (intro grows_by_and_then grows_by_listdir grows_by_succeed)

lemma grows_by_bundle_extraction:
  assumes p: "\<And>args. P (Subprocess args)"
  shows "grows_by P (bundle_extraction w wix installer out)"
  unfolding bundle_extraction_def
  by (intro grows_by_and_then grows_by_extract_burn_bundle grows_by_find_cabs
      grows_by_for_each grows_by_extract_cab p)

text \<open>A download that returns leaves a plain file at the destination.\<close>

lemma file_write_keeps_file:
  assumes "fs s q = Some (File c)"
  shows "\<exists>c'. fs (snd (file_write p chunk s)) q = Some (File c')"
  using assms by (auto simp: file_write_def split: option.splits node.splits)

lemma write_chunks_keep_file:
  "\<exists>c. fs s q = Some (File c) \<Longrightarrow>
   \<exists>c'. fs (snd (for_each (write_chunk p) cs s)) q = Some (File c')"
proof (induction cs arbitrary: s)
  case Nil
  then show ?case by simp
next
  case (Cons x cs)
  from Cons.prems obtain c where c: "fs s q = Some (File c)" by blast
  have step: "\<exists>c'. fs (snd (write_chunk p x s)) q = Some (File c')"
    using c file_write_keeps_file [OF c, of p x] by (simp add: write_chunk_def succeed_def)
  obtain r s1 where w: "write_chunk p x s = (r, s1)" by (cases "write_chunk p x s")
  with step have s1: "\<exists>c'. fs s1 q = Some (File c')" by simp
  show ?case
  proof (cases r)
    case (Inl e)
    with w s1 show ?thesis by simp
  next
    case (Inr u)
    with w Cons.IH [OF s1] show ?thesis by simp
  qed
qed

lemma open_wb_creates:
  assumes "open_wb dest s = (Inr u, s1)"
  shows "fs s1 dest = Some (File [])"
  using assms by (auto simp: open_wb_def split: option.splits node.splits)

lemma download_file_result:
  assumes "download_file w uri dest s = (Inr d, s1)"
  shows "d = dest \<and> isfile (fs s1) dest"
proof (cases "isfile (fs s) dest")
  case True
  with assms show ?thesis by (simp add: download_file_def)
next
  case False
  with assms obtain r where r: "http_get w uri = Inr r"
    by (cases "http_get w uri") (simp_all add: download_file_def)
  let ?s0 = "s\<lparr>trace := trace s @ [HttpGet uri]\<rparr>"
  from assms False r have
    run: "and_then (open_wb dest)
            (\<lambda>u. and_then (for_each (write_chunk dest) (chunks r))
              (\<lambda>u. case stream_error r of Some e \<Rightarrow> raise e | None \<Rightarrow> succeed dest)) ?s0
          = (Inr d, s1)"
    by (simp add: download_file_def)
  obtain r1 s2 where o: "open_wb dest ?s0 = (r1, s2)" by (cases "open_wb dest ?s0")
  with run obtain u where r1: "r1 = Inr u" by (cases r1) (simp_all add: and_then_def)
  from o r1 have f2: "fs s2 dest = Some (File [])" by (simp add: open_wb_creates)
  obtain r3 s3 where l: "for_each (write_chunk dest) (chunks r) s2 = (r3, s3)"
    by (cases "for_each (write_chunk dest) (chunks r) s2")
  from f2 have "\<exists>c. fs s2 dest = Some (File c)" by blast
  from write_chunks_keep_file [OF this, of dest "chunks r"] l
  have f3: "\<exists>c. fs s3 dest = Some (File c)" by simp
  from run o r1 l have "d = dest \<and> s1 = s3"
    by (cases r3; cases "stream_error r") (simp_all add: and_then_def raise_def succeed_def)
  with f3 show ?thesis by (simp add: isfile_iff)
qed

lemma download_file_cached:
  "isfile (fs s) dest \<Longrightarrow> download_file w uri dest s = (Inr dest, s)"
  by (simp add: download_file_def)

text \<open>A directory that exists and is not empty.\<close>

definition populated :: "filesystem \<Rightarrow> string \<Rightarrow> bool" where
  "populated f p =
     (case f p of Some (Dir ns) \<Rightarrow> ns \<noteq> [] | Some (File c) \<Rightarrow> False | None \<Rightarrow> False)"

lemma ensure_directory_trace: "trace (snd (ensure_directory out s)) = trace s"
  by (simp add: ensure_directory_def makedirs_trace)

lemma ensure_directory_empty:
  assumes "ensure_directory out s = (Inr u, s1)" and "\<not> populated (fs s) out"
  shows "fs s1 out = Some (Dir [])"
proof (cases "isdir (fs s) out")
  case True
  with assms(1) have "s1 = s" by (simp add: ensure_directory_def)
  with True assms(2) show ?thesis by (auto simp: isdir_iff populated_def)
next
  case False
  with assms(1) have "makedirs out s = (Inr u, s1)" by (simp add: ensure_directory_def)
  then show ?thesis by (rule makedirs_creates)
qed

lemma fetch_all_body_empty_directory:
  assumes major: "py_int (major_text ver) = Inr major_version"
    and ready: "ensure_directory (join base_directory [''vcruntime_'' @ ver]) s = (Inr u, s1)"
    and empty: "\<not> populated (fs s) (join base_directory [''vcruntime_'' @ ver])"
  shows "fetch_all_body w base_directory download_directory wix_tool_location ver installer s =
           (if major_version = 10
            then print ''Cannot extract Visual C++ 2010 runtime. Skipping.'' s1
            else if major_version < 11
            then legacy_extraction w download_directory installer
                   (join base_directory [''vcruntime_'' @ ver]) s1
            else bundle_extraction w wix_tool_location installer
                   (join base_directory [''vcruntime_'' @ ver]) s1)"
proof -
  from ensure_directory_empty [OF ready empty]
  have "listdir (join base_directory [''vcruntime_'' @ ver]) s1 = (Inr [], s1)"
    by (simp add: listdir_def)
  with major ready show ?thesis
    by (simp add: fetch_all_body_def Let_def and_then_def)
qed

lemma fetch_all_body_populated:
  assumes major: "py_int (major_text ver) = Inr major_version"
    and full: "populated (fs s) (join base_directory [''vcruntime_'' @ ver])"
  shows "fetch_all_body w base_directory download_directory wix_tool_location ver installer s =
           (Inr (), s\<lparr>trace := trace s @ [Print (''Already have '' @ ver)]\<rparr>)"
proof -
  let ?out = "join base_directory [''vcruntime_'' @ ver]"
  from full obtain ns where ns: "fs s ?out = Some (Dir ns)" "ns \<noteq> []"
    by (auto simp: populated_def split: option.splits node.splits)
  then have "ensure_directory ?out s = (Inr (), s)" and "listdir ?out s = (Inr ns, s)"
    by (simp_all add: ensure_directory_def isdir_def listdir_def)
  with major ns(2) show ?thesis
    by (simp add: fetch_all_body_def Let_def and_then_def print_def)
qed

text \<open>What the body adds to the trace when the output directory is absent or empty.\<close>

lemma fetch_all_body_events:
  assumes empty: "\<not> populated (fs s) (join base_directory [''vcruntime_'' @ ver])"
    and h: "\<And>u. P (HttpGet u)" and p: "\<And>args. P (Subprocess args)"
    and c: "P (Print ''Cannot extract Visual C++ 2010 runtime. Skipping.'')"
  shows "\<exists>evs. trace (snd (fetch_all_body w base_directory download_directory
                  wix_tool_location ver installer s)) = trace s @ evs \<and> list_all P evs"
proof -
  let ?out = "join base_directory [''vcruntime_'' @ ver]"
  let ?body = "fetch_all_body w base_directory download_directory wix_tool_location ver installer s"
  obtain r s1 where ens: "ensure_directory ?out s = (r, s1)"
    by (cases "ensure_directory ?out s")
  with ensure_directory_trace [of ?out s] have t1: "trace s1 = trace s" by simp
  have quiet: "?body = (Inl e, s1) \<Longrightarrow> ?thesis" for e
    using t1 by (auto intro: exI [of _ "[]"])
  show ?thesis
  proof (cases r)
    case (Inl e)
    with ens have "?body = (Inl e, s1)"
      by (simp add: fetch_all_body_def Let_def and_then_def)
    then show ?thesis by (rule quiet)
  next
    case (Inr u)
    show ?thesis
    proof (cases "py_int (major_text ver)")
      case (Inl e)
      with ens Inr have "?body = (Inl e, s1)"
        by (simp add: fetch_all_body_def Let_def and_then_def)
      then show ?thesis by (rule quiet)
    next
      case major: (Inr m)
      from ens Inr have ens': "ensure_directory ?out s = (Inr u, s1)" by simp
      note eq = fetch_all_body_empty_directory [OF major ens' empty,
          of w download_directory wix_tool_location installer]
      have "grows_by P (print ''Cannot extract Visual C++ 2010 runtime. Skipping.'')"
        using c by (rule grows_by_print)
      moreover have "grows_by P (legacy_extraction w download_directory installer ?out)"
        using h p by (rule grows_by_legacy_extraction)
      moreover have "grows_by P (bundle_extraction w wix_tool_location installer ?out)"
        using p by (rule grows_by_bundle_extraction)
      ultimately have "\<exists>evs. trace (snd ?body) = trace s1 @ evs \<and> list_all P evs"
        unfolding eq grows_by_def by (simp split: if_splits)
      with t1 show ?thesis by simp
    qed
  qed
qed

lemma ensure_directory_keeps_file:
  "fs s q = Some (File c) \<Longrightarrow> fs (snd (ensure_directory out s)) q = Some (File c)"
  by (simp add: ensure_directory_def makedirs_keeps_file)

lemma fetch_runtimes_next_yield:
  assumes "fetch_runtimes_next w download_directory include_old_versions entry s =
             (Inr (Some (v, installer)), s1)"
  shows "v = fst entry \<and>
         download_file w (snd entry)
           (join download_directory [fst entry @ ''_'' @ basename (snd entry)]) s =
           (Inr installer, s1)"
proof -
  let ?dl = "download_file w (snd entry)
               (join download_directory [fst entry @ ''_'' @ basename (snd entry)]) s"
  obtain r s' where dl: "?dl = (r, s')" by (cases ?dl)
  from assms have "and_then (\<lambda>s. ?dl) (\<lambda>destination. succeed (Some (fst entry, destination))) s
                     = (Inr (Some (v, installer)), s1)"
    by (auto simp: fetch_runtimes_next_def and_then_def
        split: if_splits sum.splits bool.splits)
  with dl show ?thesis
    by (cases r) (simp_all add: and_then_def succeed_def)
qed

text \<open>An entry the age filter drops when old versions are not asked for: its major
  version reads as an integer below 14.\<close>

definition too_old :: "string \<times> string \<Rightarrow> bool" where
  "too_old entry =
     (case py_int (major_text (fst entry)) of Inl e \<Rightarrow> False | Inr major \<Rightarrow> major < 14)"

lemma fetch_runtimes_next_too_old:
  "too_old entry \<Longrightarrow> fetch_runtimes_next w download_directory False entry s = (Inr None, s)"
  by (simp add: too_old_def fetch_runtimes_next_def split: sum.splits)

lemma fetch_all_loop_filter:
  "fetch_all_loop w base_directory download_directory wix_tool_location False catalog s =
   fetch_all_loop w base_directory download_directory wix_tool_location False
     (filter (\<lambda>entry. \<not> too_old entry) catalog) s"
proof (induction catalog arbitrary: s)
  case Nil
  show ?case by simp
next
  case (Cons entry entries)
  show ?case
  proof (cases "too_old entry")
    case True
    then show ?thesis by (simp add: fetch_runtimes_next_too_old Cons.IH)
  next
    case False
    then show ?thesis
      by (simp add: Cons.IH [symmetric] split: prod.splits sum.splits option.splits)
  qed
qed

lemma join2_plain:
  assumes "a \<noteq> []" and "last a \<noteq> CHR ''/''" and "b = [] \<or> hd b \<noteq> CHR ''/''"
  shows "join2 a b = a @ ''/'' @ b"
  using assms by (auto simp: join2_def)

lemma join_two: "join a [b, c] = join2 (join2 a b) c"
  by (simp add: join_def)

lemma endswith_amd64:
  assumes "endswith name ''_amd64''"
  shows "name \<noteq> [] \<and> last name = CHR ''4''"
proof -
  let ?k = "length name - length ''_amd64''"
  from assms have len: "length ''_amd64'' \<le> length name"
    and d: "drop ?k name = ''_amd64''"
    unfolding endswith_def by blast+
  from len have ne: "name \<noteq> []" by auto
  have "name = take ?k name @ drop ?k name" by (simp only: append_take_drop_id)
  with d have "name = take ?k name @ ''_amd64''" by (simp only:)
  then have "last name = last (take ?k name @ ''_amd64'')" by (simp only:)
  also have "\<dots> = CHR ''4''" by simp
  finally show ?thesis using ne by simp
qed

text \<open>Downloads make plain files only: which paths are directories does not change.\<close>

lemma open_wb_isdir: "isdir (fs (snd (open_wb dest s))) p = isdir (fs s) p"
  by (auto simp: open_wb_def isdir_def split: option.splits node.splits)

lemma file_write_isdir: "isdir (fs (snd (file_write dest chunk s))) p = isdir (fs s) p"
  by (auto simp: file_write_def isdir_def split: option.splits node.splits)

lemma write_chunks_isdir:
  "isdir (fs (snd (for_each (write_chunk dest) cs s))) p = isdir (fs s) p"
proof (induction cs arbitrary: s)
  case Nil
  show ?case by simp
next
  case (Cons x cs)
  have step: "isdir (fs (snd (write_chunk dest x s))) p = isdir (fs s) p"
    by (simp add: write_chunk_def succeed_def file_write_isdir)
  obtain r s1 where w: "write_chunk dest x s = (r, s1)" by (cases "write_chunk dest x s")
  with step have "isdir (fs s1) p = isdir (fs s) p" by simp
  with w Cons.IH [of s1] show ?case by (cases r) simp_all
qed

lemma download_file_isdir:
  "isdir (fs (snd (download_file w uri dest s))) p = isdir (fs s) p"
proof (cases "isfile (fs s) dest")
  case True
  then show ?thesis by (simp add: download_file_def)
next
  case False
  show ?thesis
  proof (cases "http_get w uri")
    case (Inl e)
    with False show ?thesis by (simp add: download_file_def)
  next
    case (Inr r)
    let ?s0 = "s\<lparr>trace := trace s @ [HttpGet uri]\<rparr>"
    obtain r1 s1 where o: "open_wb dest ?s0 = (r1, s1)" by (cases "open_wb dest ?s0")
    with open_wb_isdir [of dest ?s0 p] have d1: "isdir (fs s1) p = isdir (fs s) p" by simp
    obtain r2 s2 where l: "for_each (write_chunk dest) (chunks r) s1 = (r2, s2)"
      by (cases "for_each (write_chunk dest) (chunks r) s1")
    with write_chunks_isdir [of dest "chunks r" s1 p] d1
    have d2: "isdir (fs s2) p = isdir (fs s) p" by simp
    from False Inr o l d1 d2 show ?thesis
      by (cases r1; cases r2; cases "stream_error r")
        (simp_all add: download_file_def and_then_def raise_def succeed_def)
  qed
qed

text \<open>The three steps of \<^verbatim>\<open>fetch_7zip\<close>.\<close>

definition fetch_7zip_exe :: "world \<Rightarrow> string \<Rightarrow> unit action" where
  "fetch_7zip_exe w download_directory s =
     (if \<not> isfile (fs s) (join download_directory [''__7zr.exe''])
      then and_then (download_file w ''https://7-zip.org/a/7zr.exe''
                       (join download_directory [''__7zr.exe''])) (\<lambda>d. succeed ()) s
      else (Inr (), s))"

definition fetch_7zip_archive :: "world \<Rightarrow> string \<Rightarrow> unit action" where
  "fetch_7zip_archive w download_directory s =
     (if \<not> isfile (fs s) (join download_directory [''7z2301-extra.7z''])
      then and_then (download_file w ''https://7-zip.org/a/7z2301-extra.7z''
                       (join download_directory [''7z2301-extra.7z''])) (\<lambda>d. succeed ()) s
      else (Inr (), s))"

definition fetch_7zip_unpack :: "world \<Rightarrow> string \<Rightarrow> unit action" where
  "fetch_7zip_unpack w download_directory s =
     (if \<not> isdir (fs s) (join download_directory [''_7z''])
      then subprocess_call w
             [join download_directory [''__7zr.exe''], ''x'',
              join download_directory [''7z2301-extra.7z''],
              ''-o'' @ join download_directory [''_7z''], ''-aoa''] s
      else (Inr (), s))"

lemma fetch_7zip_steps:
  "fetch_7zip w download_directory =
     and_then (fetch_7zip_exe w download_directory)
       (\<lambda>u. and_then (fetch_7zip_archive w download_directory)
         (\<lambda>u. and_then (fetch_7zip_unpack w download_directory)
           (\<lambda>u. succeed (join (join download_directory [''_7z'']) [''7za.exe'']))))"
  unfolding fetch_7zip_def Let_def fetch_7zip_exe_def [abs_def] fetch_7zip_archive_def [abs_def]
    fetch_7zip_unpack_def [abs_def]
  by (rule refl)

lemma and_then_Inr_elim:
  assumes "and_then m f s = (Inr y, s2)"
  obtains x s1 where "m s = (Inr x, s1)" and "f x s1 = (Inr y, s2)"
proof -
  obtain r s1 where ms: "m s = (r, s1)" by (cases "m s")
  with assms obtain x where "r = Inr x" by (cases r) (simp_all add: and_then_def)
  with ms assms that show ?thesis by (simp add: and_then_def)
qed

lemma step_isdir:
  assumes "\<And>s. isdir (fs (snd (m s))) p = isdir (fs s) p"
  shows "isdir (fs (snd (and_then m (\<lambda>d. succeed x) s))) p = isdir (fs s) p"
proof -
  obtain r s1 where ms: "m s = (r, s1)" by (cases "m s")
  with assms [of s] show ?thesis by (cases r) (simp_all add: and_then_def succeed_def)
qed

lemma fetch_7zip_exe_isdir:
  "isdir (fs (snd (fetch_7zip_exe w dd s))) p = isdir (fs s) p"
  unfolding fetch_7zip_exe_def by (simp add: step_isdir download_file_isdir)

lemma fetch_7zip_archive_isdir:
  "isdir (fs (snd (fetch_7zip_archive w dd s))) p = isdir (fs s) p"
  unfolding fetch_7zip_archive_def by (simp add: step_isdir download_file_isdir)

lemma fetch_7zip_returns:
  assumes "fetch_7zip w download_directory s = (Inr p, s')"
  shows "p = join (join download_directory [''_7z'']) [''7za.exe'']"
    and "\<not> isdir (fs s) (join download_directory [''_7z'']) \<Longrightarrow>
         Subprocess [join download_directory [''__7zr.exe''], ''x'',
                     join download_directory [''7z2301-extra.7z''],
                     ''-o'' @ join download_directory [''_7z''], ''-aoa'']
           \<in> set (trace s')"
proof -
  let ?tools = "join download_directory [''_7z'']"
  from assms [unfolded fetch_7zip_steps]
  obtain u1 s1 where a: "fetch_7zip_exe w download_directory s = (Inr u1, s1)"
    and r1: "and_then (fetch_7zip_archive w download_directory)
         (\<lambda>u. and_then (fetch_7zip_unpack w download_directory)
           (\<lambda>u. succeed (join ?tools [''7za.exe'']))) s1 = (Inr p, s')"
    by (rule and_then_Inr_elim)
  from r1 obtain u2 s2 where b: "fetch_7zip_archive w download_directory s1 = (Inr u2, s2)"
    and r2: "and_then (fetch_7zip_unpack w download_directory)
           (\<lambda>u. succeed (join ?tools [''7za.exe''])) s2 = (Inr p, s')"
    by (rule and_then_Inr_elim)
  from r2 obtain u3 s3 where c: "fetch_7zip_unpack w download_directory s2 = (Inr u3, s3)"
    and r3: "succeed (join ?tools [''7za.exe'']) s3 = (Inr p, s')"
    by (rule and_then_Inr_elim)
  from r3 have p: "p = join ?tools [''7za.exe'']" and s': "s' = s3"
    by (simp_all add: succeed_def)
  from p show "p = join (join download_directory [''_7z'']) [''7za.exe'']" .
  assume absent: "\<not> isdir (fs s) ?tools"
  from fetch_7zip_exe_isdir [of w download_directory s ?tools] a
  have "isdir (fs s1) ?tools = isdir (fs s) ?tools" by simp
  moreover from fetch_7zip_archive_isdir [of w download_directory s1 ?tools] b
  have "isdir (fs s2) ?tools = isdir (fs s1) ?tools" by simp
  ultimately have "\<not> isdir (fs s2) ?tools" using absent by simp
  with c have "trace s3 = trace s2 @
      [Subprocess [join download_directory [''__7zr.exe''], ''x'',
                   join download_directory [''7z2301-extra.7z''],
                   ''-o'' @ ?tools, ''-aoa'']]"
    by (auto simp: fetch_7zip_unpack_def subprocess_call_def split: sum.splits)
  with s' show "Subprocess [join download_directory [''__7zr.exe''], ''x'',
                     join download_directory [''7z2301-extra.7z''],
                     ''-o'' @ join download_directory [''_7z''], ''-aoa'']
           \<in> set (trace s')"
    by simp
qed

lemma fetch_wix_returns:
  assumes "fetch_wix w download_directory s = (Inr p, s')"
  shows "p = join download_directory [''__wix''] \<and>
         ZipExtract (join download_directory [''__wix.zip''])
                    (join download_directory [''__wix'']) \<in> set (trace s')"
proof -
  from assms [unfolded fetch_wix_def Let_def]
  obtain u1 s1 where
    r1: "and_then (zipfile_extractall w (join download_directory [''__wix.zip''])
                     (join download_directory [''__wix'']))
           (\<lambda>u. succeed (join download_directory [''__wix''])) s1 = (Inr p, s')"
    by (rule and_then_Inr_elim)
  from r1 obtain u2 s2 where
    z: "zipfile_extractall w (join download_directory [''__wix.zip''])
          (join download_directory [''__wix'']) s1 = (Inr u2, s2)"
    and r2: "succeed (join download_directory [''__wix'']) s2 = (Inr p, s')"
    by (rule and_then_Inr_elim)
  from z have "trace s2 = trace s1 @
      [ZipExtract (join download_directory [''__wix.zip'']) (join download_directory [''__wix''])]"
    by (auto simp: zipfile_extractall_def split: option.splits node.splits sum.splits)
  with r2 show ?thesis by (auto simp: succeed_def)
qed

lemma fetch_7zip_after_exe:
  assumes absent: "\<not> isfile (fs s) (join download_directory [''__7zr.exe''])"
    and dl: "download_file w ''https://7-zip.org/a/7zr.exe''
               (join download_directory [''__7zr.exe'']) s = (Inr d, s1)"
  shows "isfile (fs s1) (join download_directory [''__7zr.exe'']) \<and>
         fetch_7zip w download_directory s = fetch_7zip w download_directory s1"
proof -
  from download_file_result [OF dl]
  have isf: "isfile (fs s1) (join download_directory [''__7zr.exe''])" by simp
  from absent dl have "fetch_7zip_exe w download_directory s = (Inr (), s1)"
    by (simp add: fetch_7zip_exe_def and_then_def succeed_def)
  moreover from isf have "fetch_7zip_exe w download_directory s1 = (Inr (), s1)"
    by (simp add: fetch_7zip_exe_def)
  ultimately have "fetch_7zip w download_directory s = fetch_7zip w download_directory s1"
    by (simp add: fetch_7zip_steps and_then_def)
  with isf show ?thesis by simp
qed



text \<open>A catalog entry that is fully downloaded and extracted under a base directory:
  its installer is a plain file in \<^verbatim>\<open>Downloads\<close> and its output directory is populated.\<close>

definition already_extracted :: "string \<Rightarrow> filesystem \<Rightarrow> string \<times> string \<Rightarrow> bool" where
  "already_extracted base_directory f entry =
     (isfile f (join (join base_directory [''Downloads''])
                  [fst entry @ ''_'' @ basename (snd entry)]) \<and>
      populated f (join base_directory [''vcruntime_'' @ fst entry]))"

text \<open>Events that are neither a network request nor the run of an external program.\<close>

definition quiet_event :: "event \<Rightarrow> bool" where
  "quiet_event e =
     (case e of HttpGet u \<Rightarrow> False | Subprocess args \<Rightarrow> False
      | ZipExtract z t \<Rightarrow> True | Print m \<Rightarrow> True)"

text \<open>Unpacking a zip archive writes files and makes directories; it removes nothing.\<close>

definition zip_only_adds :: "world \<Rightarrow> bool" where
  "zip_only_adds w =
     (\<forall>content target f f' p.
        zip_extractall w content target f = Inr f' \<longrightarrow>
          (isfile f p \<longrightarrow> isfile f' p) \<and> (populated f p \<longrightarrow> populated f' p))"

lemma populated_isdir: "populated f p \<Longrightarrow> isdir f p"
  by (auto simp: populated_def isdir_def split: option.splits node.splits)

lemma extracted_entry_turn:
  assumes "already_extracted base_directory (fs s) entry"
  shows "(\<exists>e. fetch_runtimes_next w (join base_directory [''Downloads'']) include_old_versions
                 entry s = (Inl e, s)) \<or>
         fetch_runtimes_next w (join base_directory [''Downloads'']) include_old_versions
           entry s = (Inr None, s) \<or>
         fetch_runtimes_next w (join base_directory [''Downloads'']) include_old_versions
           entry s =
           (Inr (Some (fst entry, join (join base_directory [''Downloads''])
                                    [fst entry @ ''_'' @ basename (snd entry)])), s)"
proof -
  from assms have "download_file w (snd entry)
      (join (join base_directory [''Downloads''])
         [fst entry @ ''_'' @ basename (snd entry)]) s =
      (Inr (join (join base_directory [''Downloads''])
              [fst entry @ ''_'' @ basename (snd entry)]), s)"
    by (simp add: already_extracted_def download_file_cached)
  then show ?thesis
    by (simp add: fetch_runtimes_next_def and_then_def succeed_def
        split: sum.splits bool.splits)
qed

lemma extracted_entry_body:
  assumes "already_extracted base_directory (fs s) (ver, uri)"
  shows "(\<exists>e. fetch_all_body w base_directory download_directory wix_tool_location
                 ver installer s = (Inl e, s)) \<or>
         fetch_all_body w base_directory download_directory wix_tool_location ver installer s =
           (Inr (), s\<lparr>trace := trace s @ [Print (''Already have '' @ ver)]\<rparr>)"
proof (cases "py_int (major_text ver)")
  case (Inl e)
  from assms have "isdir (fs s) (join base_directory [''vcruntime_'' @ ver])"
    by (simp add: already_extracted_def populated_isdir)
  with Inl show ?thesis
    by (simp add: fetch_all_body_def Let_def and_then_def ensure_directory_def)
next
  case (Inr m)
  from assms have "populated (fs s) (join base_directory [''vcruntime_'' @ ver])"
    by (simp add: already_extracted_def)
  from fetch_all_body_populated [OF Inr this] show ?thesis by simp
qed

lemma extracted_catalog_loop:
  assumes "list_all (already_extracted base_directory (fs s)) catalog"
  shows "\<exists>msgs. snd (fetch_all_loop w base_directory (join base_directory [''Downloads''])
                       wix_tool_location include_old_versions catalog s) =
                 s\<lparr>trace := trace s @ map Print msgs\<rparr>"
  using assms
proof (induction catalog arbitrary: s)
  case Nil
  have "snd (fetch_all_loop w base_directory (join base_directory [''Downloads''])
               wix_tool_location include_old_versions [] s) =
          s\<lparr>trace := trace s @ map Print []\<rparr>" by simp
  then show ?case by (rule exI)
next
  case (Cons entry entries)
  let ?dd = "join base_directory [''Downloads'']"
  let ?dest = "join ?dd [fst entry @ ''_'' @ basename (snd entry)]"
  let ?loop = "fetch_all_loop w base_directory ?dd wix_tool_location include_old_versions"
  from Cons.prems have here: "already_extracted base_directory (fs s) entry"
    and rest: "list_all (already_extracted base_directory (fs s)) entries" by simp_all
  have stop: "\<exists>msgs. s = s\<lparr>trace := trace s @ map Print msgs\<rparr>"
    by (rule exI [of _ "[]"]) simp
  from extracted_entry_turn [OF here, of w include_old_versions]
  consider (err) e where "fetch_runtimes_next w ?dd include_old_versions entry s = (Inl e, s)"
    | (skip) "fetch_runtimes_next w ?dd include_old_versions entry s = (Inr None, s)"
    | (yield) "fetch_runtimes_next w ?dd include_old_versions entry s =
                 (Inr (Some (fst entry, ?dest)), s)"
    by blast
  then show ?case
  proof cases
    case err
    with stop show ?thesis by simp
  next
    case skip
    with Cons.IH [OF rest] show ?thesis by simp
  next
    case yield
    from here have "already_extracted base_directory (fs s) (fst entry, snd entry)" by simp
    from extracted_entry_body [OF this, of w ?dd wix_tool_location ?dest]
    show ?thesis
    proof
      assume "\<exists>e. fetch_all_body w base_directory ?dd wix_tool_location (fst entry) ?dest s =
                 (Inl e, s)"
      with yield stop show ?thesis by auto
    next
      let ?s1 = "s\<lparr>trace := trace s @ [Print (''Already have '' @ fst entry)]\<rparr>"
      assume b: "fetch_all_body w base_directory ?dd wix_tool_location (fst entry) ?dest s =
                   (Inr (), ?s1)"
      from rest have "list_all (already_extracted base_directory (fs ?s1)) entries" by simp
      from Cons.IH [OF this] obtain msgs where
        "snd (?loop entries ?s1) = ?s1\<lparr>trace := trace ?s1 @ map Print msgs\<rparr>" by blast
      with yield b have "snd (?loop (entry # entries) s) =
          s\<lparr>trace := trace s @ map Print ((''Already have '' @ fst entry) # msgs)\<rparr>"
        by simp
      then show ?thesis by blast
    qed
  qed
qed

text \<open>The calls of \<^verbatim>\<open>expand.exe\<close> that expand given cabinets into a destination.\<close>

definition expand_calls :: "string \<Rightarrow> string list \<Rightarrow> event list" where
  "expand_calls destination cabs =
     map (\<lambda>cab. Subprocess [''expand.exe'', ''-F:*'', cab, destination]) cabs"

text \<open>The loop over cabinets calls \<^verbatim>\<open>expand.exe\<close> once for each, in order, and stops
  at the first call that cannot be launched; when it returns, every cabinet was
  expanded.\<close>

lemma extract_cabs_trace:
  "\<exists>n. trace (snd (for_each (\<lambda>cab. extract_cab w (g cab) out) cabs s)) =
          trace s @ expand_calls out (map g (take n cabs)) \<and>
        (fst (for_each (\<lambda>cab. extract_cab w (g cab) out) cabs s) = Inr () \<longrightarrow>
           take n cabs = cabs)"
proof (induction cabs arbitrary: s)
  case Nil
  show ?case by (simp add: expand_calls_def)
next
  case (Cons x xs)
  let ?call = "Subprocess [''expand.exe'', ''-F:*'', g x, out]"
  obtain r s1 where c: "extract_cab w (g x) out s = (r, s1)"
    by (cases "extract_cab w (g x) out s")
  then have t1: "trace s1 = trace s @ [?call]"
    by (auto simp: extract_cab_def subprocess_call_def split: sum.splits)
  show ?case
  proof (cases r)
    case (Inl e)
    with c t1 have "trace (snd (for_each (\<lambda>cab. extract_cab w (g cab) out) (x # xs) s)) =
          trace s @ expand_calls out (map g (take (Suc 0) (x # xs))) \<and>
        (fst (for_each (\<lambda>cab. extract_cab w (g cab) out) (x # xs) s) = Inr () \<longrightarrow>
           take (Suc 0) (x # xs) = x # xs)"
      by (simp add: expand_calls_def)
    then show ?thesis by (rule exI)
  next
    case (Inr u)
    from Cons.IH [of s1] obtain n where
      n: "trace (snd (for_each (\<lambda>cab. extract_cab w (g cab) out) xs s1)) =
            trace s1 @ expand_calls out (map g (take n xs))"
      and f: "fst (for_each (\<lambda>cab. extract_cab w (g cab) out) xs s1) = Inr () \<longrightarrow>
            take n xs = xs"
      by blast
    from c Inr t1 n f
    have "trace (snd (for_each (\<lambda>cab. extract_cab w (g cab) out) (x # xs) s)) =
          trace s @ expand_calls out (map g (take (Suc n) (x # xs))) \<and>
        (fst (for_each (\<lambda>cab. extract_cab w (g cab) out) (x # xs) s) = Inr () \<longrightarrow>
           take (Suc n) (x # xs) = x # xs)"
      by (simp add: expand_calls_def)
    then show ?thesis by (rule exI)
  qed
qed

lemma find_cabs_state: "snd (find_cabs d s) = s"
  by (simp add: find_cabs_def Let_def and_then_def succeed_def listdir_def
      split: option.splits node.splits)

lemma mkdtemp_trace: "trace (snd (mkdtemp w s)) = trace s"
  by (simp add: mkdtemp_def mkdtemp_loop_trace)

text \<open>What the bundle path adds to the trace once the temporary directory is made: the
  call of \<^verbatim>\<open>dark.exe\<close> on the installer, then calls of \<^verbatim>\<open>expand.exe\<close> only; when the
  path returns, one for each cabinet that \<^verbatim>\<open>find_cabs\<close> yields.\<close>

lemma bundle_extraction_run:
  assumes tmp: "mkdtemp w s = (Inr d, s2)"
    and call: "subprocess_call w
                 [join wix [''dark.exe''], ''-nologo'', ''-x'', d, installer] s2 = (Inr u, s3)"
    and found: "find_cabs d s3 = (Inr cabs, s3')"
  shows "bundle_extraction w wix installer out s =
           for_each (\<lambda>cab. extract_cab w cab out) cabs s3"
proof -
  from found find_cabs_state [of d s3] have "s3' = s3" by simp
  with tmp call found show ?thesis
    by (simp add: bundle_extraction_def extract_burn_bundle_def Let_def and_then_def
        succeed_def)
qed

lemma dark_call_trace:
  assumes tmp: "mkdtemp w s = (Inr d, s2)"
    and call: "subprocess_call w
                 [join wix [''dark.exe''], ''-nologo'', ''-x'', d, installer] s2 = (r, s3)"
  shows "trace s3 =
           trace s @ [Subprocess [join wix [''dark.exe''], ''-nologo'', ''-x'', d, installer]]"
proof -
  from tmp mkdtemp_trace [of w s] have "trace s2 = trace s" by simp
  moreover from call have "trace s3 = trace s2 @
      [Subprocess [join wix [''dark.exe''], ''-nologo'', ''-x'', d, installer]]"
    by (cases "run_process w [join wix [''dark.exe''], ''-nologo'', ''-x'', d, installer] (fs s2)")
      (auto simp: subprocess_call_def)
  ultimately show ?thesis by simp
qed

lemma bundle_extraction_trace:
  assumes tmp: "mkdtemp w s = (Inr d, s2)"
  shows "\<exists>cabs'. trace (snd (bundle_extraction w wix installer out s)) =
           trace s @ Subprocess [join wix [''dark.exe''], ''-nologo'', ''-x'', d, installer] #
             expand_calls out cabs'"
proof -
  let ?dark = "Subprocess [join wix [''dark.exe''], ''-nologo'', ''-x'', d, installer]"
  let ?run = "bundle_extraction w wix installer out s"
  obtain r s3 where call: "subprocess_call w
      [join wix [''dark.exe''], ''-nologo'', ''-x'', d, installer] s2 = (r, s3)"
    by (cases "subprocess_call w [join wix [''dark.exe''], ''-nologo'', ''-x'', d, installer] s2")
  note t3 = dark_call_trace [OF tmp call]
  have stop: ?thesis if "snd ?run = s3"
  proof -
    from that t3 have "trace (snd ?run) = trace s @ ?dark # expand_calls out []"
      by (simp add: expand_calls_def)
    then show ?thesis by (rule exI)
  qed
  show ?thesis
  proof (cases r)
    case (Inl e)
    with tmp call have "?run = (Inl e, s3)"
      by (simp add: bundle_extraction_def extract_burn_bundle_def Let_def and_then_def)
    then show ?thesis by (intro stop) simp
  next
    case (Inr u)
    obtain r' s3' where fc: "find_cabs d s3 = (r', s3')" by (cases "find_cabs d s3")
    with find_cabs_state [of d s3] have s3': "s3' = s3" by simp
    show ?thesis
    proof (cases r')
      case (Inl e)
      with tmp call Inr fc s3' have "?run = (Inl e, s3)"
        by (simp add: bundle_extraction_def extract_burn_bundle_def Let_def and_then_def
            succeed_def)
      then show ?thesis by (intro stop) simp
    next
      case found: (Inr cabs)
      from call Inr have call': "subprocess_call w
          [join wix [''dark.exe''], ''-nologo'', ''-x'', d, installer] s2 = (Inr u, s3)" by simp
      from fc found have fc': "find_cabs d s3 = (Inr cabs, s3')" by simp
      note run = bundle_extraction_run [OF tmp call' fc', of out]
      from extract_cabs_trace [of w "\<lambda>cab. cab" out cabs s3] obtain n where
        "trace (snd (for_each (\<lambda>cab. extract_cab w cab out) cabs s3)) =
              trace s3 @ expand_calls out (take n cabs)"
        by auto
      with run t3 have "trace (snd ?run) = trace s @ ?dark # expand_calls out (take n cabs)"
        by simp
      then show ?thesis by (rule exI)
    qed
  qed
qed

lemma bundle_extraction_finished:
  assumes tmp: "mkdtemp w s = (Inr d, s2)"
    and call: "subprocess_call w
                 [join wix [''dark.exe''], ''-nologo'', ''-x'', d, installer] s2 = (Inr u, s3)"
    and found: "find_cabs d s3 = (Inr cabs, s3')"
    and fin: "fst (bundle_extraction w wix installer out s) = Inr ()"
  shows "trace (snd (bundle_extraction w wix installer out s)) =
           trace s @ Subprocess [join wix [''dark.exe''], ''-nologo'', ''-x'', d, installer] #
             expand_calls out cabs"
proof -
  note run = bundle_extraction_run [OF tmp call found, of out]
  note t3 = dark_call_trace [OF tmp call]
  from extract_cabs_trace [of w "\<lambda>cab. cab" out cabs s3] obtain n where
    n: "trace (snd (for_each (\<lambda>cab. extract_cab w cab out) cabs s3)) =
              trace s3 @ expand_calls out (take n cabs)"
    and f: "fst (for_each (\<lambda>cab. extract_cab w cab out) cabs s3) = Inr () \<longrightarrow>
              take n cabs = cabs"
    by auto
  from fin run f have "take n cabs = cabs" by simp
  with n run t3 show ?thesis by simp
qed

text \<open>The legacy path after \<^verbatim>\<open>fetch_7zip\<close> returned, the temporary directory was made
  and 7-Zip ran.\<close>

lemma extract_old_installer_after_call:
  assumes tmp: "mkdtemp w s2 = (Inr d, s3)"
    and call: "subprocess_call w [exe, ''x'', ''-o'' @ d, installer, ''-i!*.cab''] s3 =
                 (Inr u, s4)"
  shows "extract_old_installer w exe installer s2 =
           (case fs s4 d of
              None \<Rightarrow> (Inl (FileNotFoundError d), s4)
            | Some (File c) \<Rightarrow> (Inl (NotADirectoryError d), s4)
            | Some (Dir ns) \<Rightarrow>
                if ns = []
                then (Inl (ValueError (''Failed to extract any cabinet file from '' @
                                        installer @ ''.'')), s4)
                else (Inr d, s4))"
proof -
  have "extract_old_installer w exe installer s2 =
          and_then (listdir d)
             (\<lambda>names.
               if names = []
               then raise (ValueError (''Failed to extract any cabinet file from '' @
                                        installer @ ''.''))
               else succeed d) s4"
    unfolding extract_old_installer_def
    by (simp only: and_then_def tmp call prod.case sum.case)
  also have "\<dots> = (case fs s4 d of
              None \<Rightarrow> (Inl (FileNotFoundError d), s4)
            | Some (File c) \<Rightarrow> (Inl (NotADirectoryError d), s4)
            | Some (Dir ns) \<Rightarrow>
                if ns = []
                then (Inl (ValueError (''Failed to extract any cabinet file from '' @
                                        installer @ ''.'')), s4)
                else (Inr d, s4))"
    by (simp add: and_then_def listdir_def raise_def succeed_def
        split: option.splits node.splits)
  finally show ?thesis .
qed

lemma legacy_extraction_after_call:
  assumes tools: "fetch_7zip w dd s = (Inr exe, s2)"
    and tmp: "mkdtemp w s2 = (Inr d, s3)"
    and call: "subprocess_call w [exe, ''x'', ''-o'' @ d, installer, ''-i!*.cab''] s3 =
                 (Inr u, s4)"
  shows "legacy_extraction w dd installer out s =
           (case fs s4 d of
              None \<Rightarrow> (Inl (FileNotFoundError d), s4)
            | Some (File c) \<Rightarrow> (Inl (NotADirectoryError d), s4)
            | Some (Dir ns) \<Rightarrow>
                if ns = []
                then (Inl (ValueError (''Failed to extract any cabinet file from '' @
                                        installer @ ''.'')), s4)
                else for_each (\<lambda>cab. extract_cab w (join d [cab]) out) ns s4)"
proof -
  have "legacy_extraction w dd installer out s =
          and_then (extract_old_installer w exe installer)
            (\<lambda>cab_directory. and_then (listdir cab_directory)
              (\<lambda>cabs. for_each
                 (\<lambda>cab. extract_cab w (join cab_directory [cab]) out) cabs)) s2"
    unfolding legacy_extraction_def
    by (simp only: and_then_def tools prod.case sum.case)
  also have "\<dots> = (case fs s4 d of
              None \<Rightarrow> (Inl (FileNotFoundError d), s4)
            | Some (File c) \<Rightarrow> (Inl (NotADirectoryError d), s4)
            | Some (Dir ns) \<Rightarrow>
                if ns = []
                then (Inl (ValueError (''Failed to extract any cabinet file from '' @
                                        installer @ ''.'')), s4)
                else for_each (\<lambda>cab. extract_cab w (join d [cab]) out) ns s4)"
    by (simp add: and_then_def extract_old_installer_after_call [OF tmp call] listdir_def
        split: option.splits node.splits)
  finally show ?thesis .
qed

lemma legacy_extraction_call_fails:
  assumes tools: "fetch_7zip w dd s = (Inr exe, s2)"
    and tmp: "mkdtemp w s2 = (Inr d, s3)"
    and call: "subprocess_call w [exe, ''x'', ''-o'' @ d, installer, ''-i!*.cab''] s3 =
                 (Inl e, s4)"
  shows "legacy_extraction w dd installer out s = (Inl e, s4)"
proof -
  have "extract_old_installer w exe installer s2 = (Inl e, s4)"
    unfolding extract_old_installer_def
    by (simp only: and_then_def tmp call prod.case sum.case)
  then show ?thesis
    unfolding legacy_extraction_def
    by (simp only: and_then_def tools prod.case sum.case)
qed

lemma seven_zip_call_trace:
  assumes tmp: "mkdtemp w s2 = (Inr d, s3)"
    and call: "subprocess_call w [exe, ''x'', ''-o'' @ d, installer, ''-i!*.cab''] s3 = (r, s4)"
  shows "trace s4 = trace s2 @ [Subprocess [exe, ''x'', ''-o'' @ d, installer, ''-i!*.cab'']]"
proof -
  from tmp mkdtemp_trace [of w s2] have "trace s3 = trace s2" by simp
  moreover from call have "trace s4 = trace s3 @
      [Subprocess [exe, ''x'', ''-o'' @ d, installer, ''-i!*.cab'']]"
    by (cases "run_process w [exe, ''x'', ''-o'' @ d, installer, ''-i!*.cab''] (fs s3)")
      (auto simp: subprocess_call_def)
  ultimately show ?thesis by simp
qed

text \<open>What the legacy path adds to the trace after \<^verbatim>\<open>fetch_7zip\<close>: the call of 7-Zip on
  the installer, then calls of \<^verbatim>\<open>expand.exe\<close> only; when the path returns, one for each
  name in the temporary directory.\<close>

lemma legacy_extraction_trace:
  assumes tools: "fetch_7zip w dd s = (Inr exe, s2)"
    and tmp: "mkdtemp w s2 = (Inr d, s3)"
  shows "\<exists>cabs'. trace (snd (legacy_extraction w dd installer out s)) =
           trace s2 @ Subprocess [exe, ''x'', ''-o'' @ d, installer, ''-i!*.cab''] #
             expand_calls out cabs'"
proof -
  let ?call = "Subprocess [exe, ''x'', ''-o'' @ d, installer, ''-i!*.cab'']"
  let ?run = "legacy_extraction w dd installer out s"
  obtain r s4 where call: "subprocess_call w
      [exe, ''x'', ''-o'' @ d, installer, ''-i!*.cab''] s3 = (r, s4)"
    by (cases "subprocess_call w [exe, ''x'', ''-o'' @ d, installer, ''-i!*.cab''] s3")
  note t4 = seven_zip_call_trace [OF tmp call]
  have stop: ?thesis if "snd ?run = s4"
  proof -
    from that t4 have "trace (snd ?run) = trace s2 @ ?call # expand_calls out []"
      by (simp add: expand_calls_def)
    then show ?thesis by (rule exI)
  qed
  show ?thesis
  proof (cases r)
    case (Inl e)
    with call have "subprocess_call w
        [exe, ''x'', ''-o'' @ d, installer, ''-i!*.cab''] s3 = (Inl e, s4)" by simp
    from legacy_extraction_call_fails [OF tools tmp this, of out]
    show ?thesis by (intro stop) simp
  next
    case (Inr u)
    with call have call': "subprocess_call w
        [exe, ''x'', ''-o'' @ d, installer, ''-i!*.cab''] s3 = (Inr u, s4)" by simp
    note run = legacy_extraction_after_call [OF tools tmp call', of out]
    show ?thesis
    proof (cases "\<exists>ns. fs s4 d = Some (Dir ns) \<and> ns \<noteq> []")
      case False
      with run have "snd ?run = s4"
        by (auto split: option.splits node.splits)
      then show ?thesis by (rule stop)
    next
      case True
      then obtain ns where ns: "fs s4 d = Some (Dir ns)" "ns \<noteq> []" by blast
      with run have run': "?run = for_each (\<lambda>cab. extract_cab w (join d [cab]) out) ns s4"
        by simp
      from extract_cabs_trace [of w "\<lambda>cab. join d [cab]" out ns s4] obtain n where
        "trace (snd (for_each (\<lambda>cab. extract_cab w (join d [cab]) out) ns s4)) =
           trace s4 @ expand_calls out (map (\<lambda>cab. join d [cab]) (take n ns))"
        by auto
      with run' t4 have "trace (snd ?run) = trace s2 @ ?call #
          expand_calls out (map (\<lambda>cab. join d [cab]) (take n ns))"
        by simp
      then show ?thesis by (rule exI)
    qed
  qed
qed

lemma legacy_extraction_finished:
  assumes tools: "fetch_7zip w dd s = (Inr exe, s2)"
    and tmp: "mkdtemp w s2 = (Inr d, s3)"
    and call: "subprocess_call w [exe, ''x'', ''-o'' @ d, installer, ''-i!*.cab''] s3 =
                 (Inr u, s4)"
    and listing: "fs s4 d = Some (Dir names)"
    and fin: "fst (legacy_extraction w dd installer out s) = Inr ()"
  shows "trace (snd (legacy_extraction w dd installer out s)) =
           trace s2 @ Subprocess [exe, ''x'', ''-o'' @ d, installer, ''-i!*.cab''] #
             expand_calls out (map (\<lambda>cab. join d [cab]) names)"
proof -
  note run = legacy_extraction_after_call [OF tools tmp call, of out]
  have some: "names \<noteq> []"
  proof
    assume "names = []"
    with run listing have "fst (legacy_extraction w dd installer out s) \<noteq> Inr ()" by simp
    with fin show False by simp
  qed
  with run listing
  have run': "legacy_extraction w dd installer out s =
                for_each (\<lambda>cab. extract_cab w (join d [cab]) out) names s4"
    by simp
  note t4 = seven_zip_call_trace [OF tmp call]
  from extract_cabs_trace [of w "\<lambda>cab. join d [cab]" out names s4] obtain n where
    n: "trace (snd (for_each (\<lambda>cab. extract_cab w (join d [cab]) out) names s4)) =
         trace s4 @ expand_calls out (map (\<lambda>cab. join d [cab]) (take n names))"
    and f: "fst (for_each (\<lambda>cab. extract_cab w (join d [cab]) out) names s4) = Inr () \<longrightarrow>
         take n names = names"
    by auto
  from fin run' f have "take n names = names" by simp
  with n run' t4 show ?thesis by simp
qed

section \<open>Concrete machines\<close>

text \<open>A server that answers every request with two chunks around an empty keep-alive
  chunk, external programs and archives that change nothing, and temporary names
  \<^verbatim>\<open>/tmp/tmp\<close>, \<^verbatim>\<open>/tmp/tmpa\<close>, ...\<close>

definition idle_world :: world where
  "idle_world =
     \<lparr>http_get = (\<lambda>u. Inr \<lparr>chunks = [''MZ'', [], ''new''], stream_error = None\<rparr>),
      run_process = (\<lambda>args f. Inr f),
      zip_extractall = (\<lambda>content target f. Inr f),
      tmp_name = (\<lambda>n. ''/tmp/tmp'' @ replicate n (CHR ''a''))\<rparr>"

text \<open>A destination \<^verbatim>\<open>d\<close> with an empty \<^verbatim>\<open>Downloads\<close> directory.\<close>

definition fresh_fs :: filesystem where
  "fresh_fs =
     [''d'' \<mapsto> Dir [''Downloads''], ''d/Downloads'' \<mapsto> Dir [], ''/tmp'' \<mapsto> Dir []]"

definition fresh_state :: state where
  "fresh_state = \<lparr>fs = fresh_fs, trace = [], tmp_seq = 0\<rparr>"

text \<open>A destination \<^verbatim>\<open>d\<close> without a \<^verbatim>\<open>Downloads\<close> directory.\<close>

definition bare_state :: state where
  "bare_state = \<lparr>fs = [''d'' \<mapsto> Dir []], trace = [], tmp_seq = 0\<rparr>"

text \<open>A download directory that holds a file \<^verbatim>\<open>x.exe\<close> with the bytes \<^verbatim>\<open>old\<close>.\<close>

definition cached_state :: state where
  "cached_state =
     \<lparr>fs = [''d/Downloads'' \<mapsto> Dir [''x.exe''], ''d/Downloads/x.exe'' \<mapsto> File ''old''],
      trace = [], tmp_seq = 0\<rparr>"

text \<open>Evaluation on concrete machines: the path functions and the file-system calls.\<close>

lemmas path_eval =
  join_def join2_def basename_def split_path_def rstrip_sep_def makedirs_split_def
  major_text_def partition_str_def endswith_def

lemmas int_eval = py_int_def strip_def is_space_def is_digit_def digit_val_def Let_def

lemmas fs_eval =
  isfile_def isdir_def path_exists_def populated_def listdir_def mkdir_def open_wb_def
  file_write_def ensure_directory_def makedirs.simps

lemmas run_eval =
  and_then_def succeed_def raise_def print_def subprocess_call_def zipfile_extractall_def
  download_file_def write_chunk_def extract_cab_def

text \<open>The fresh destination after an empty output directory was made in it.\<close>

definition with_output_directory :: "string \<Rightarrow> state" where
  "with_output_directory name =
     \<lparr>fs = fresh_fs(''d'' \<mapsto> Dir [''Downloads'', name], ''d/'' @ name \<mapsto> Dir []),
      trace = [], tmp_seq = 0\<rparr>"

text \<open>A destination where the one release of the catalog has been downloaded and
  extracted, and the WiX archive is in the download directory.\<close>

definition extracted_fs :: filesystem where
  "extracted_fs =
     [''d'' \<mapsto> Dir [''Downloads'', ''vcruntime_14.42.34438.0''],
      ''d/Downloads'' \<mapsto> Dir [''__wix.zip'', ''14.42.34438.0_VC_redist.x64.exe''],
      ''d/Downloads/__wix.zip'' \<mapsto> File ''PK'',
      ''d/Downloads/14.42.34438.0_VC_redist.x64.exe'' \<mapsto> File ''MZ'',
      ''d/vcruntime_14.42.34438.0'' \<mapsto> Dir [''vcruntime140.dll''],
      ''d/vcruntime_14.42.34438.0/vcruntime140.dll'' \<mapsto> File ''MZ'',
      ''/tmp'' \<mapsto> Dir []]"

definition extracted_state :: state where
  "extracted_state = \<lparr>fs = extracted_fs, trace = [], tmp_seq = 0\<rparr>"

text \<open>The fresh destination after the installer of Visual C++ 2010 was downloaded, and
  after the body of the loop skipped that release.\<close>

definition url_2010 :: string where
  "url_2010 = ''https://download.microsoft.com/download/1/6/5/165255E7-1014-4D0A-B094-B6A430A6BFFC/vcredist_x64.exe''"

definition downloaded_2010 :: state where
  "downloaded_2010 =
     \<lparr>fs = fresh_fs(''d/Downloads'' \<mapsto> Dir [''10.0.40219.32503_vcredist_x64.exe''],
                     ''d/Downloads/10.0.40219.32503_vcredist_x64.exe'' \<mapsto> File ''MZnew''),
      trace = [HttpGet url_2010], tmp_seq = 0\<rparr>"

definition skipped_2010 :: state where
  "skipped_2010 =
     \<lparr>fs = (fs downloaded_2010)
              (''d'' \<mapsto> Dir [''Downloads'', ''vcruntime_10.0.40219.32503''],
               ''d/vcruntime_10.0.40219.32503'' \<mapsto> Dir []),
      trace = [HttpGet url_2010, Print ''Cannot extract Visual C++ 2010 runtime. Skipping.''],
      tmp_seq = 0\<rparr>"

text \<open>The release of 2008, which the catalog of the source holds commented out.\<close>

definition entry_2008 :: "string \<times> string" where
  "entry_2008 =
     (''9.0.30729.4148'',
      ''https://download.microsoft.com/download/9/7/7/977B481A-7BA6-4E30-AC40-ED51EB2028F2/vcredist_x64.exe'')"

text \<open>An unpacked bundle whose \<^verbatim>\<open>packages\<close> directory holds two package directories
  and a plain file named like one.\<close>

definition bundle_fs :: filesystem where
  "bundle_fs =
     [''/tmp/b'' \<mapsto> Dir [''AttachedContainer''],
      ''/tmp/b/AttachedContainer'' \<mapsto> Dir [''packages''],
      ''/tmp/b/AttachedContainer/packages'' \<mapsto>
         Dir [''vcRuntimeMinimum_amd64'', ''vcRuntimeMinimum_x86'', ''notes_amd64''],
      ''/tmp/b/AttachedContainer/packages/vcRuntimeMinimum_amd64'' \<mapsto> Dir [''cab1.cab''],
      ''/tmp/b/AttachedContainer/packages/vcRuntimeMinimum_amd64/cab1.cab'' \<mapsto> File ''MSCF'',
      ''/tmp/b/AttachedContainer/packages/vcRuntimeMinimum_x86'' \<mapsto> Dir [''cab1.cab''],
      ''/tmp/b/AttachedContainer/packages/vcRuntimeMinimum_x86/cab1.cab'' \<mapsto> File ''MSCF'',
      ''/tmp/b/AttachedContainer/packages/notes_amd64'' \<mapsto> File ''readme'']"

definition bundle_state :: state where
  "bundle_state = \<lparr>fs = bundle_fs, trace = [], tmp_seq = 0\<rparr>"

text \<open>A world in which the stand-alone 7-Zip extractor unpacks its archive: a call with
  five arguments that ends in \<^verbatim>\<open>-aoa\<close> makes the directory named after \<^verbatim>\<open>-o\<close>, with
  \<^verbatim>\<open>7za.exe\<close> in it. Every other program runs and changes nothing; so 7-Zip finds no
  cabinet in an installer, and \<^verbatim>\<open>dark.exe\<close> unpacks nothing.\<close>

definition unpacking_world :: world where
  "unpacking_world =
     idle_world\<lparr>run_process :=
       (\<lambda>args f. case args of
          [exe, x, archive, out, flag] \<Rightarrow>
            if flag = ''-aoa''
            then Inr (f(fst (split_path (drop 2 out)) \<mapsto>
                          Dir ((case f (fst (split_path (drop 2 out))) of
                                  Some (Dir ns) \<Rightarrow> ns | Some (File c) \<Rightarrow> [] | None \<Rightarrow> []) @
                               [snd (split_path (drop 2 out))]),
                        drop 2 out \<mapsto> Dir [''7za.exe''],
                        drop 2 out @ ''/7za.exe'' \<mapsto> File ''MZ''))
            else Inr f
        | _ \<Rightarrow> Inr f)\<rparr>"

definition tools_state :: state where
  "tools_state =
     \<lparr>fs = fresh_fs
        (''d/Downloads'' \<mapsto> Dir [''__7zr.exe'', ''7z2301-extra.7z'', ''_7z''],
         ''d/Downloads/__7zr.exe'' \<mapsto> File ''MZnew'',
         ''d/Downloads/7z2301-extra.7z'' \<mapsto> File ''MZnew'',
         ''d/Downloads/_7z'' \<mapsto> Dir [''7za.exe''],
         ''d/Downloads/_7z/7za.exe'' \<mapsto> File ''MZ''),
      trace = [HttpGet ''https://7-zip.org/a/7zr.exe'',
               HttpGet ''https://7-zip.org/a/7z2301-extra.7z'',
               Subprocess [''d/Downloads/__7zr.exe'', ''x'', ''d/Downloads/7z2301-extra.7z'',
                           ''-od/Downloads/_7z'', ''-aoa'']],
      tmp_seq = 0\<rparr>"

lemma fetch_7zip_fresh:
  "fetch_7zip unpacking_world ''d/Downloads'' fresh_state =
     (Inr ''d/Downloads/_7z/7za.exe'', tools_state)"
  by (simp add: fetch_7zip_def run_eval fs_eval Let_def join_def join2_def split_path_def
      basename_def rstrip_sep_def unpacking_world_def idle_world_def fresh_state_def
      fresh_fs_def tools_state_def fun_upd_twist)

text \<open>The fresh destination after \<^verbatim>\<open>fetch_wix\<close>, and after the download of the
  stand-alone 7-Zip extractor.\<close>

definition wix_url :: string where
  "wix_url =
     ''https://github.com/wixtoolset/wix3/releases/download/wix3111rtm/wix311-binaries.zip''"

definition wix_state :: state where
  "wix_state =
     \<lparr>fs = fresh_fs(''d/Downloads'' \<mapsto> Dir [''__wix.zip''],
                     ''d/Downloads/__wix.zip'' \<mapsto> File ''MZnew''),
      trace = [HttpGet wix_url, ZipExtract ''d/Downloads/__wix.zip'' ''d/Downloads/__wix''],
      tmp_seq = 0\<rparr>"

definition exe_state :: state where
  "exe_state =
     \<lparr>fs = fresh_fs(''d/Downloads'' \<mapsto> Dir [''__7zr.exe''],
                     ''d/Downloads/__7zr.exe'' \<mapsto> File ''MZnew''),
      trace = [HttpGet ''https://7-zip.org/a/7zr.exe''], tmp_seq = 0\<rparr>"

lemma fetch_wix_fresh:
  "fetch_wix unpacking_world ''d/Downloads'' fresh_state = (Inr ''d/Downloads/__wix'', wix_state)"
  by (simp add: fetch_wix_def run_eval fs_eval Let_def join_def join2_def split_path_def
      basename_def rstrip_sep_def unpacking_world_def idle_world_def fresh_state_def
      fresh_fs_def wix_state_def wix_url_def fun_upd_twist)

lemma download_7zr_fresh:
  "download_file unpacking_world ''https://7-zip.org/a/7zr.exe'' ''d/Downloads/__7zr.exe''
     fresh_state = (Inr ''d/Downloads/__7zr.exe'', exe_state)"
  by (simp add: run_eval fs_eval Let_def split_path_def
      basename_def rstrip_sep_def unpacking_world_def idle_world_def fresh_state_def
      fresh_fs_def exe_state_def fun_upd_twist)





text \<open>The extracted destination with the WiX archive removed from the download
  directory.\<close>

definition extracted_without_wix :: state where
  "extracted_without_wix =
     extracted_state\<lparr>fs := extracted_fs
       (''d/Downloads'' \<mapsto> Dir [''14.42.34438.0_VC_redist.x64.exe''],
        ''d/Downloads/__wix.zip'' := None)\<rparr>"

text \<open>A world in which the WiX archive unpacks: \<^verbatim>\<open>dark.exe\<close> is written into the target
  directory, unless a plain file or a directory is in the way.\<close>

definition wix_world :: world where
  "wix_world =
     idle_world\<lparr>zip_extractall :=
       (\<lambda>content target f.
          if isfile f target \<or> isdir f (target @ ''/dark.exe'')
          then Inl (OSError target)
          else Inr (f(target \<mapsto> Dir [''dark.exe''],
                      target @ ''/dark.exe'' \<mapsto> File content)))\<rparr>"

lemma zip_only_adds_wix_world: "zip_only_adds wix_world"
  by (auto simp: zip_only_adds_def wix_world_def isfile_def isdir_def populated_def
      split: if_splits option.splits node.splits)

section \<open>The claims\<close>



text \<open>
  C2, as the claim states it, fails. With the one release of the catalog downloaded and
  extracted but no \<^verbatim>\<open>__wix.zip\<close> in the download directory, a run requests the WiX
  archive from the network; and with \<^verbatim>\<open>__wix.zip\<close> there, a run still unpacks it
  again.
\<close>

theorem rerun_fetches_and_unpacks_wix:
  "list_all (already_extracted ''d'' (fs extracted_without_wix)) runtime_downloads \<and>
   trace (snd (fetch_all idle_world ''d'' False extracted_without_wix)) =
     [HttpGet wix_url, ZipExtract ''d/Downloads/__wix.zip'' ''d/Downloads/__wix'',
      Print ''Already have 14.42.34438.0''] \<and>
   list_all (already_extracted ''d'' (fs extracted_state)) runtime_downloads \<and>
   trace (snd (fetch_all idle_world ''d'' False extracted_state)) =
     [ZipExtract ''d/Downloads/__wix.zip'' ''d/Downloads/__wix'',
      Print ''Already have 14.42.34438.0'']"
  by (simp add: fetch_all_def fetch_all_catalog_def fetch_wix_def fetch_runtimes_next_def
      fetch_all_body_def already_extracted_def runtime_downloads_def
      run_eval fs_eval path_eval int_eval idle_world_def wix_url_def
      extracted_without_wix_def extracted_state_def extracted_fs_def)

text \<open>
  C2, amended. When the WiX archive \<^verbatim>\<open>__wix.zip\<close> is in the download directory too and
  every catalog entry is downloaded and extracted (installer a plain file in
  \<^verbatim>\<open>Downloads\<close>, output directory populated), a run makes no network request and runs
  no external program: all it adds to the trace is the unpacking of \<^verbatim>\<open>__wix.zip\<close>, which
  \<^verbatim>\<open>fetch_wix\<close> repeats on every run, and printed lines. (Unpacking a zip archive is
  taken to remove nothing.)
\<close>

theorem rerun_is_quiet:
  assumes wix: "isfile (fs s) (join (join base_directory [''Downloads'']) [''__wix.zip''])"
    and zip: "zip_only_adds w"
    and extracted: "list_all (already_extracted base_directory (fs s)) catalog"
  shows "\<exists>evs. trace (snd (fetch_all_catalog catalog w base_directory include_old_versions s)) =
                 trace s @ evs \<and> list_all quiet_event evs"
proof -
  let ?dd = "join base_directory [''Downloads'']"
  let ?zip = "join ?dd [''__wix.zip'']"
  let ?target = "join ?dd [''__wix'']"
  let ?run = "fetch_all_catalog catalog w base_directory include_old_versions s"
  let ?ev = "ZipExtract ?zip ?target"
  have none: "snd ?run = s \<Longrightarrow> ?thesis"
    by (auto intro: exI [of _ "[]"])
  from wix obtain content where content: "fs s ?zip = Some (File content)"
    by (auto simp: isfile_iff)
  show ?thesis
  proof (cases "isdir (fs s) ?dd")
    case False
    then have "snd ?run = s" by (simp add: fetch_all_catalog_def)
    then show ?thesis by (rule none)
  next
    case True
    show ?thesis
    proof (cases "zip_extractall w content ?target (fs s)")
      case (Inl e)
      with True wix content have "snd ?run = s\<lparr>trace := trace s @ [?ev]\<rparr>"
        by (simp add: fetch_all_catalog_def fetch_wix_def Let_def and_then_def
            zipfile_extractall_def)
      then have "trace (snd ?run) = trace s @ [?ev] \<and> list_all quiet_event [?ev]"
        by (simp add: quiet_event_def)
      then show ?thesis by blast
    next
      case (Inr f')
      let ?s1 = "s\<lparr>fs := f', trace := trace s @ [?ev]\<rparr>"
      from True wix content Inr have run:
        "?run = fetch_all_loop w base_directory ?dd ?target include_old_versions catalog ?s1"
        by (simp add: fetch_all_catalog_def fetch_wix_def Let_def and_then_def
            zipfile_extractall_def succeed_def)
      from zip Inr have keep: "isfile (fs s) p \<longrightarrow> isfile f' p"
        "populated (fs s) p \<longrightarrow> populated f' p" for p
        unfolding zip_only_adds_def by blast+
      from extracted have "list_all (already_extracted base_directory (fs ?s1)) catalog"
        by (auto simp: list_all_iff already_extracted_def keep)
      from extracted_catalog_loop [OF this, of w ?target include_old_versions] run
      obtain msgs where "snd ?run = ?s1\<lparr>trace := trace ?s1 @ map Print msgs\<rparr>" by auto
      then have "trace (snd ?run) = trace s @ (?ev # map Print msgs) \<and>
                 list_all quiet_event (?ev # map Print msgs)"
        by (simp add: quiet_event_def list_all_iff)
      then show ?thesis by blast
    qed
  qed
qed

theorem rerun_is_quiet_witness:
  "isfile (fs extracted_state) (join (join ''d'' [''Downloads'']) [''__wix.zip'']) \<and>
   zip_only_adds wix_world \<and>
   list_all (already_extracted ''d'' (fs extracted_state)) runtime_downloads \<and>
   (\<exists>evs. trace (snd (fetch_all wix_world ''d'' False extracted_state)) =
            trace extracted_state @ evs \<and> list_all quiet_event evs) \<and>
   trace (snd (fetch_all wix_world ''d'' False extracted_state)) =
     [ZipExtract ''d/Downloads/__wix.zip'' ''d/Downloads/__wix'',
      Print ''Already have 14.42.34438.0''] \<and>
   fs (snd (fetch_all wix_world ''d'' False extracted_state)) ''d/Downloads/__wix/dark.exe'' =
     Some (File ''PK'')"
proof -
  have w: "isfile (fs extracted_state) (join (join ''d'' [''Downloads'']) [''__wix.zip''])"
    by (simp add: isfile_def path_eval extracted_state_def extracted_fs_def)
  have e: "list_all (already_extracted ''d'' (fs extracted_state)) runtime_downloads"
    by (simp add: already_extracted_def runtime_downloads_def isfile_def populated_def
        path_eval extracted_state_def extracted_fs_def)
  have r: "trace (snd (fetch_all wix_world ''d'' False extracted_state)) =
     [ZipExtract ''d/Downloads/__wix.zip'' ''d/Downloads/__wix'',
      Print ''Already have 14.42.34438.0''] \<and>
   fs (snd (fetch_all wix_world ''d'' False extracted_state)) ''d/Downloads/__wix/dark.exe'' =
     Some (File ''PK'')"
    by (simp add: fetch_all_def fetch_all_catalog_def fetch_wix_def fetch_runtimes_next_def
        fetch_all_body_def runtime_downloads_def
        run_eval fs_eval path_eval int_eval wix_world_def idle_world_def
        extracted_state_def extracted_fs_def)
  from rerun_is_quiet [OF w zip_only_adds_wix_world e, of False] w e r
    zip_only_adds_wix_world
  show ?thesis by (simp add: fetch_all_def)
qed

text \<open>
  C3. With \<^verbatim>\<open>include_old_versions\<close> false, the entries whose major version is below 14
  leave no mark on a run: \<^verbatim>\<open>fetch_all\<close> over a catalog does exactly what it does over the
  catalog without them, and the turn of the generator for such an entry neither
  downloads nor yields and leaves the machine as it was. With the flag true no entry is
  dropped: the turn for any entry is the download of its installer, and it yields the
  version with the destination when the download returns.
\<close>

theorem age_filter:
  "fetch_all_catalog catalog w base_directory False s =
     fetch_all_catalog (filter (\<lambda>entry. \<not> too_old entry) catalog) w base_directory False s \<and>
   (too_old entry \<longrightarrow>
      fetch_runtimes_next w download_directory False entry s = (Inr None, s)) \<and>
   fetch_runtimes_next w download_directory True entry s =
     (case download_file w (snd entry)
             (join download_directory [fst entry @ ''_'' @ basename (snd entry)]) s of
        (Inl e, s1) \<Rightarrow> (Inl e, s1)
      | (Inr destination, s1) \<Rightarrow> (Inr (Some (fst entry, destination)), s1))"
proof (intro conjI impI)
  show "fetch_all_catalog catalog w base_directory False s =
     fetch_all_catalog (filter (\<lambda>entry. \<not> too_old entry) catalog) w base_directory False s"
    by (simp add: fetch_all_catalog_def Let_def and_then_def fetch_all_loop_filter [symmetric]
        split: prod.splits sum.splits)
next
  assume "too_old entry"
  then show "fetch_runtimes_next w download_directory False entry s = (Inr None, s)"
    by (rule fetch_runtimes_next_too_old)
next
  show "fetch_runtimes_next w download_directory True entry s =
     (case download_file w (snd entry)
             (join download_directory [fst entry @ ''_'' @ basename (snd entry)]) s of
        (Inl e, s1) \<Rightarrow> (Inl e, s1)
      | (Inr destination, s1) \<Rightarrow> (Inr (Some (fst entry, destination)), s1))"
    by (simp add: fetch_runtimes_next_def and_then_def succeed_def
        split: prod.splits sum.splits)
qed

theorem age_filter_witness:
  "too_old entry_2008 \<and>
   fetch_runtimes_next idle_world ''d/Downloads'' False entry_2008 fresh_state =
     (Inr None, fresh_state) \<and>
   fetch_all_catalog (entry_2008 # runtime_downloads) idle_world ''d'' False fresh_state =
     fetch_all idle_world ''d'' False fresh_state"
proof -
  have old: "too_old entry_2008"
    by (simp add: too_old_def entry_2008_def path_eval int_eval)
  have new: "filter (\<lambda>entry. \<not> too_old entry) runtime_downloads = runtime_downloads"
    by (simp add: too_old_def runtime_downloads_def path_eval int_eval)
  from age_filter [of "entry_2008 # runtime_downloads" idle_world "''d''" fresh_state
      entry_2008 "''d/Downloads''"] old new
  show ?thesis by (simp add: fetch_all_def)
qed

text \<open>
  C4. For every URL and every destination that exists as a plain file, whatever its
  content, \<^verbatim>\<open>download_file\<close> returns the destination at once: the machine is left as
  it was, so no request is made (the trace does not grow) and the file keeps its bytes.
\<close>

theorem download_file_existing_destination:
  assumes "isfile (fs s) dest"
  shows "download_file w uri dest s = (Inr dest, s)"
  using assms by (rule download_file_cached)

theorem download_file_existing_destination_witness:
  "isfile (fs cached_state) ''d/Downloads/x.exe'' \<and>
   download_file idle_world ''https://host/x.exe'' ''d/Downloads/x.exe'' cached_state
     = (Inr ''d/Downloads/x.exe'', cached_state) \<and>
   fs cached_state ''d/Downloads/x.exe'' = Some (File ''old'') \<and>
   trace cached_state = []"
proof -
  have h: "isfile (fs cached_state) ''d/Downloads/x.exe''"
    by (simp add: cached_state_def isfile_def)
  from download_file_existing_destination [OF h, of idle_world "''https://host/x.exe''"] h
  show ?thesis by (simp add: cached_state_def)
qed




text \<open>
  C6. When the \<^verbatim>\<open>Downloads\<close> subdirectory of the base directory is not a directory,
  \<^verbatim>\<open>fetch_all\<close> raises \<^verbatim>\<open>SystemError\<close> with the message
  \<^verbatim>\<open>The download directory does not exist: <path>\<close> and the machine is left as it was:
  nothing was downloaded, fetched or extracted. This holds for every catalog, and so for
  the one of the source.
\<close>

theorem fetch_all_requires_download_directory:
  assumes "\<not> isdir (fs s) (join base_directory [''Downloads''])"
  shows "fetch_all_catalog catalog w base_directory include_old_versions s =
           (Inl (SystemError (''The download directory does not exist: '' @
                              join base_directory [''Downloads''])), s) \<and>
         fetch_all w base_directory include_old_versions s =
           (Inl (SystemError (''The download directory does not exist: '' @
                              join base_directory [''Downloads''])), s)"
  using assms by (simp add: fetch_all_def fetch_all_catalog_def)

theorem fetch_all_requires_download_directory_witness:
  "\<not> isdir (fs bare_state) (join ''d'' [''Downloads'']) \<and>
   fetch_all idle_world ''d'' False bare_state =
     (Inl (SystemError ''The download directory does not exist: d/Downloads''), bare_state)"
proof -
  have h: "\<not> isdir (fs bare_state) (join ''d'' [''Downloads''])"
    by (simp add: bare_state_def isdir_def join_def join2_def)
  from fetch_all_requires_download_directory [OF h, of runtime_downloads idle_world False] h
  show ?thesis by (simp add: join_def join2_def)
qed

text \<open>
  C7, as the claim states it, fails: \<^verbatim>\<open>find_cabs\<close> does not ask whether a name is a
  subdirectory. Here \<^verbatim>\<open>notes_amd64\<close> is a plain file in \<^verbatim>\<open>packages\<close>, and a path inside
  it is yielded all the same.
\<close>

theorem find_cabs_yields_for_plain_file:
  "find_cabs ''/tmp/b'' bundle_state =
     (Inr [''/tmp/b/AttachedContainer/packages/vcRuntimeMinimum_amd64/cab1.cab'',
           ''/tmp/b/AttachedContainer/packages/notes_amd64/cab1.cab''], bundle_state) \<and>
   isfile (fs bundle_state) ''/tmp/b/AttachedContainer/packages/notes_amd64'' \<and>
   \<not> isdir (fs bundle_state) ''/tmp/b/AttachedContainer/packages/notes_amd64''"
  by (simp add: find_cabs_def Let_def and_then_def succeed_def listdir_def isfile_def isdir_def
      path_eval bundle_state_def bundle_fs_def)

text \<open>
  C7, amended. \<^verbatim>\<open>find_cabs\<close> lists exactly the directory
  \<^verbatim>\<open>AttachedContainer/packages\<close> under the unpacked bundle and fails when that is not a
  directory; for each name in it that ends in \<^verbatim>\<open>_amd64\<close>, whether a subdirectory or not,
  it yields the path of \<^verbatim>\<open>cab1.cab\<close> under that name, in the order of the listing, and it
  yields nothing else. The machine is left as it was. For a bundle directory written
  without a trailing separator these paths are the directory followed by
  \<^verbatim>\<open>/AttachedContainer/packages/<name>/cab1.cab\<close>.
\<close>

theorem find_cabs_yields:
  "find_cabs directory s =
     (case fs s (join directory [''AttachedContainer'', ''packages'']) of
        None \<Rightarrow>
          (Inl (FileNotFoundError (join directory [''AttachedContainer'', ''packages''])), s)
      | Some (File c) \<Rightarrow>
          (Inl (NotADirectoryError (join directory [''AttachedContainer'', ''packages''])), s)
      | Some (Dir names) \<Rightarrow>
          (Inr (map (\<lambda>name. join (join directory [''AttachedContainer'', ''packages''])
                              [name, ''cab1.cab''])
                  (filter (\<lambda>name. endswith name ''_amd64'') names)), s)) \<and>
   (directory \<noteq> [] \<and> last directory \<noteq> CHR ''/'' \<and>
    endswith name ''_amd64'' \<and> hd name \<noteq> CHR ''/'' \<longrightarrow>
      join directory [''AttachedContainer'', ''packages''] =
        directory @ ''/AttachedContainer/packages'' \<and>
      join (join directory [''AttachedContainer'', ''packages'']) [name, ''cab1.cab''] =
        directory @ ''/AttachedContainer/packages/'' @ name @ ''/cab1.cab'')"
proof (intro conjI impI)
  show "find_cabs directory s =
     (case fs s (join directory [''AttachedContainer'', ''packages'']) of
        None \<Rightarrow>
          (Inl (FileNotFoundError (join directory [''AttachedContainer'', ''packages''])), s)
      | Some (File c) \<Rightarrow>
          (Inl (NotADirectoryError (join directory [''AttachedContainer'', ''packages''])), s)
      | Some (Dir names) \<Rightarrow>
          (Inr (map (\<lambda>name. join (join directory [''AttachedContainer'', ''packages''])
                              [name, ''cab1.cab''])
                  (filter (\<lambda>name. endswith name ''_amd64'') names)), s))"
    by (simp add: find_cabs_def Let_def and_then_def succeed_def listdir_def
        split: option.splits node.splits)
next
  assume a: "directory \<noteq> [] \<and> last directory \<noteq> CHR ''/'' \<and>
    endswith name ''_amd64'' \<and> hd name \<noteq> CHR ''/''"
  then have "join2 directory ''AttachedContainer'' = directory @ ''/AttachedContainer''"
    by (simp add: join2_plain)
  then have base: "join directory [''AttachedContainer'', ''packages''] =
        directory @ ''/AttachedContainer/packages''"
    by (simp add: join_def join2_plain)
  then show "join directory [''AttachedContainer'', ''packages''] =
        directory @ ''/AttachedContainer/packages''" .
  from a endswith_amd64 [of name] have n: "name \<noteq> []" "last name = CHR ''4''" by simp_all
  let ?base = "directory @ ''/AttachedContainer/packages''"
  from a have one: "join2 ?base name = ?base @ ''/'' @ name"
    by (intro join2_plain) simp_all
  from n have two: "join2 (?base @ ''/'' @ name) ''cab1.cab'' =
                      (?base @ ''/'' @ name) @ ''/'' @ ''cab1.cab''"
    by (intro join2_plain) simp_all
  have "join (join directory [''AttachedContainer'', ''packages'']) [name, ''cab1.cab''] =
          join2 (join2 ?base name) ''cab1.cab''"
    unfolding base by (rule join_two)
  also have "\<dots> = (?base @ ''/'' @ name) @ ''/'' @ ''cab1.cab''"
    by (simp only: one two)
  also have "\<dots> = directory @ ''/AttachedContainer/packages/'' @ name @ ''/cab1.cab''"
    by simp
  finally show "join (join directory [''AttachedContainer'', ''packages'']) [name, ''cab1.cab''] =
        directory @ ''/AttachedContainer/packages/'' @ name @ ''/cab1.cab''" .
qed

theorem find_cabs_yields_witness:
  "''/tmp/b'' \<noteq> [] \<and> last ''/tmp/b'' \<noteq> CHR ''/'' \<and>
   endswith ''vcRuntimeMinimum_amd64'' ''_amd64'' \<and> hd ''vcRuntimeMinimum_amd64'' \<noteq> CHR ''/'' \<and>
   join ''/tmp/b'' [''AttachedContainer'', ''packages''] = ''/tmp/b/AttachedContainer/packages'' \<and>
   join (join ''/tmp/b'' [''AttachedContainer'', ''packages''])
        [''vcRuntimeMinimum_amd64'', ''cab1.cab''] =
     ''/tmp/b/AttachedContainer/packages/vcRuntimeMinimum_amd64/cab1.cab'' \<and>
   find_cabs ''/tmp/b'' (bundle_state\<lparr>fs := Map.empty\<rparr>) =
     (Inl (FileNotFoundError ''/tmp/b/AttachedContainer/packages''),
      bundle_state\<lparr>fs := Map.empty\<rparr>)"
proof -
  have e: "endswith ''vcRuntimeMinimum_amd64'' ''_amd64''" by (simp add: endswith_def)
  from find_cabs_yields [of "''/tmp/b''" "bundle_state\<lparr>fs := Map.empty\<rparr>"
      "''vcRuntimeMinimum_amd64''"] e
  show ?thesis by (simp add: join_def join2_def)
qed

text \<open>
  C8. The output directory of a version \<open>v\<close> is \<^verbatim>\<open>vcruntime_\<close> followed by \<open>v\<close>, under the
  base directory. When it exists and is not empty, the body of the loop prints
  \<^verbatim>\<open>Already have\<close> with \<open>v\<close> and does nothing else; when it is absent, or exists and is
  empty, that line is not among the events the body adds. (The version is one whose
  major number \<^verbatim>\<open>int\<close> reads, as the body reads it before it looks into the directory.)
\<close>

theorem already_extracted_check:
  "(py_int (major_text ver) = Inr major_version \<and>
    populated (fs s) (join base_directory [''vcruntime_'' @ ver]) \<longrightarrow>
      fetch_all_body w base_directory download_directory wix_tool_location ver installer s =
        (Inr (), s\<lparr>trace := trace s @ [Print (''Already have '' @ ver)]\<rparr>)) \<and>
   (\<not> populated (fs s) (join base_directory [''vcruntime_'' @ ver]) \<longrightarrow>
      Print (''Already have '' @ ver) \<notin>
        set (drop (length (trace s))
               (trace (snd (fetch_all_body w base_directory download_directory
                              wix_tool_location ver installer s)))))"
proof (intro conjI impI)
  assume "py_int (major_text ver) = Inr major_version \<and>
    populated (fs s) (join base_directory [''vcruntime_'' @ ver])"
  then show "fetch_all_body w base_directory download_directory wix_tool_location ver installer s =
        (Inr (), s\<lparr>trace := trace s @ [Print (''Already have '' @ ver)]\<rparr>)"
    by (simp add: fetch_all_body_populated)
next
  assume empty: "\<not> populated (fs s) (join base_directory [''vcruntime_'' @ ver])"
  have "\<exists>evs. trace (snd (fetch_all_body w base_directory download_directory
                  wix_tool_location ver installer s)) = trace s @ evs \<and>
              list_all (\<lambda>e. e \<noteq> Print (''Already have '' @ ver)) evs"
    by (rule fetch_all_body_events [OF empty]) simp_all
  then show "Print (''Already have '' @ ver) \<notin>
        set (drop (length (trace s))
               (trace (snd (fetch_all_body w base_directory download_directory
                              wix_tool_location ver installer s))))"
    by (auto simp: list_all_iff)
qed

theorem already_extracted_check_witness:
  "py_int (major_text ''14.42.34438.0'') = Inr 14 \<and>
   populated (fs extracted_state) (join ''d'' [''vcruntime_'' @ ''14.42.34438.0'']) \<and>
   fetch_all_body idle_world ''d'' ''d/Downloads'' ''d/Downloads/__wix'' ''14.42.34438.0''
       ''d/Downloads/14.42.34438.0_VC_redist.x64.exe'' extracted_state =
     (Inr (), extracted_state\<lparr>trace := [Print ''Already have 14.42.34438.0'']\<rparr>) \<and>
   fs (with_output_directory ''vcruntime_14.42.34438.0'') ''d/vcruntime_14.42.34438.0''
     = Some (Dir []) \<and>
   \<not> populated (fs (with_output_directory ''vcruntime_14.42.34438.0''))
       (join ''d'' [''vcruntime_'' @ ''14.42.34438.0'']) \<and>
   Print ''Already have 14.42.34438.0'' \<notin>
     set (drop (length (trace (with_output_directory ''vcruntime_14.42.34438.0'')))
            (trace (snd (fetch_all_body idle_world ''d'' ''d/Downloads'' ''d/Downloads/__wix''
                           ''14.42.34438.0'' ''d/Downloads/14.42.34438.0_VC_redist.x64.exe''
                           (with_output_directory ''vcruntime_14.42.34438.0'')))))"
proof -
  have m: "py_int (major_text ''14.42.34438.0'') = Inr 14"
    by (simp add: path_eval int_eval)
  have f: "populated (fs extracted_state) (join ''d'' [''vcruntime_'' @ ''14.42.34438.0''])"
    by (simp add: path_eval populated_def extracted_state_def extracted_fs_def)
  have d: "fs (with_output_directory ''vcruntime_14.42.34438.0'') ''d/vcruntime_14.42.34438.0''
             = Some (Dir [])"
    by (simp add: with_output_directory_def)
  have e: "\<not> populated (fs (with_output_directory ''vcruntime_14.42.34438.0''))
             (join ''d'' [''vcruntime_'' @ ''14.42.34438.0''])"
    by (simp add: path_eval populated_def with_output_directory_def)
  have t: "trace extracted_state = []" by (simp add: extracted_state_def)
  from already_extracted_check [where ver = "''14.42.34438.0''" and major_version = 14
      and s = extracted_state and base_directory = "''d''" and w = idle_world
      and download_directory = "''d/Downloads''" and wix_tool_location = "''d/Downloads/__wix''"
      and installer = "''d/Downloads/14.42.34438.0_VC_redist.x64.exe''"]
    already_extracted_check [where ver = "''14.42.34438.0''" and major_version = 14
      and s = "with_output_directory ''vcruntime_14.42.34438.0''" and base_directory = "''d''"
      and w = idle_world and download_directory = "''d/Downloads''"
      and wix_tool_location = "''d/Downloads/__wix''"
      and installer = "''d/Downloads/14.42.34438.0_VC_redist.x64.exe''"]
    m f d e t
  show ?thesis by simp
qed

text \<open>
  C9, as the claim states it, fails for the unpacked 7-Zip tools: the directory is
  \<^verbatim>\<open>_7z\<close>, with one underscore. On a fresh destination \<^verbatim>\<open>fetch_7zip\<close> tells the
  extractor to unpack into \<^verbatim>\<open>d/Downloads/_7z\<close> and returns \<^verbatim>\<open>d/Downloads/_7z/7za.exe\<close>;
  nothing is made at \<^verbatim>\<open>d/Downloads/__7z\<close>.
\<close>

theorem tools_directory_has_one_underscore:
  "fetch_7zip unpacking_world (join ''d'' [''Downloads'']) fresh_state =
     (Inr ''d/Downloads/_7z/7za.exe'', tools_state) \<and>
   Subprocess [''d/Downloads/__7zr.exe'', ''x'', ''d/Downloads/7z2301-extra.7z'',
               ''-od/Downloads/_7z'', ''-aoa''] \<in> set (trace tools_state) \<and>
   isdir (fs tools_state) ''d/Downloads/_7z'' \<and>
   fs tools_state ''d/Downloads/__7z'' = None \<and>
   fs tools_state ''d/Downloads/__7z/7za.exe'' = None"
  using fetch_7zip_fresh
  by (simp add: join_def join2_def tools_state_def fresh_fs_def isdir_def)

text \<open>
  C9, amended. Under the download directory (\<^verbatim>\<open>Downloads\<close> in the destination) the WiX
  toolset is unpacked into \<^verbatim>\<open>__wix\<close>, which \<^verbatim>\<open>fetch_wix\<close> returns; the 7-Zip tools are
  unpacked into \<^verbatim>\<open>_7z\<close> (one underscore), with \<^verbatim>\<open>7za.exe\<close> inside it returned by
  \<^verbatim>\<open>fetch_7zip\<close>, by a call of the stand-alone extractor at \<^verbatim>\<open>__7zr.exe\<close>; and that
  extractor, when absent, is downloaded to \<^verbatim>\<open>__7zr.exe\<close>, after which \<^verbatim>\<open>fetch_7zip\<close>
  goes on as if it had been there. For a destination written without a trailing
  separator the three paths are the destination followed by \<^verbatim>\<open>/Downloads/__wix\<close>,
  \<^verbatim>\<open>/Downloads/_7z\<close> and \<^verbatim>\<open>/Downloads/__7zr.exe\<close>.
\<close>

theorem tool_cache_paths:
  "(fetch_wix w download_directory s = (Inr p, s1) \<longrightarrow>
      p = join download_directory [''__wix''] \<and>
      ZipExtract (join download_directory [''__wix.zip''])
                 (join download_directory [''__wix'']) \<in> set (trace s1)) \<and>
   (fetch_7zip w download_directory s = (Inr q, s2) \<longrightarrow>
      q = join (join download_directory [''_7z'']) [''7za.exe''] \<and>
      (isdir (fs s) (join download_directory [''_7z'']) \<or>
       Subprocess [join download_directory [''__7zr.exe''], ''x'',
                   join download_directory [''7z2301-extra.7z''],
                   ''-o'' @ join download_directory [''_7z''], ''-aoa'']
         \<in> set (trace s2))) \<and>
   (\<not> isfile (fs s) (join download_directory [''__7zr.exe'']) \<and>
    download_file w ''https://7-zip.org/a/7zr.exe''
      (join download_directory [''__7zr.exe'']) s = (Inr d, s3) \<longrightarrow>
      isfile (fs s3) (join download_directory [''__7zr.exe'']) \<and>
      fetch_7zip w download_directory s = fetch_7zip w download_directory s3) \<and>
   (destination \<noteq> [] \<and> last destination \<noteq> CHR ''/'' \<longrightarrow>
      join (join destination [''Downloads'']) [''__wix''] = destination @ ''/Downloads/__wix'' \<and>
      join (join destination [''Downloads'']) [''_7z''] = destination @ ''/Downloads/_7z'' \<and>
      join (join destination [''Downloads'']) [''__7zr.exe''] =
        destination @ ''/Downloads/__7zr.exe'')"
proof (intro conjI impI)
  assume "fetch_wix w download_directory s = (Inr p, s1)"
  from fetch_wix_returns [OF this]
  show "p = join download_directory [''__wix'']"
    and "ZipExtract (join download_directory [''__wix.zip''])
                 (join download_directory [''__wix'']) \<in> set (trace s1)"
    by simp_all
next
  assume r: "fetch_7zip w download_directory s = (Inr q, s2)"
  from fetch_7zip_returns(1) [OF r]
  show "q = join (join download_directory [''_7z'']) [''7za.exe'']" .
  from fetch_7zip_returns(2) [OF r]
  show "isdir (fs s) (join download_directory [''_7z'']) \<or>
       Subprocess [join download_directory [''__7zr.exe''], ''x'',
                   join download_directory [''7z2301-extra.7z''],
                   ''-o'' @ join download_directory [''_7z''], ''-aoa'']
         \<in> set (trace s2)"
    by blast
next
  assume a: "\<not> isfile (fs s) (join download_directory [''__7zr.exe'']) \<and>
    download_file w ''https://7-zip.org/a/7zr.exe''
      (join download_directory [''__7zr.exe'']) s = (Inr d, s3)"
  then have "isfile (fs s3) (join download_directory [''__7zr.exe'']) \<and>
      fetch_7zip w download_directory s = fetch_7zip w download_directory s3"
    by (intro fetch_7zip_after_exe) simp_all
  then show "isfile (fs s3) (join download_directory [''__7zr.exe''])"
    and "fetch_7zip w download_directory s = fetch_7zip w download_directory s3"
    by simp_all
next
  assume a: "destination \<noteq> [] \<and> last destination \<noteq> CHR ''/''"
  then have dl: "join destination [''Downloads''] = destination @ ''/Downloads''"
    by (simp add: join_def join2_plain)
  show "join (join destination [''Downloads'']) [''__wix''] = destination @ ''/Downloads/__wix''"
    and "join (join destination [''Downloads'']) [''_7z''] = destination @ ''/Downloads/_7z''"
    and "join (join destination [''Downloads'']) [''__7zr.exe''] =
        destination @ ''/Downloads/__7zr.exe''"
    unfolding dl by (simp_all add: join_def join2_def)
qed

theorem tool_cache_paths_witness:
  "fetch_wix unpacking_world ''d/Downloads'' fresh_state =
     (Inr ''d/Downloads/__wix'', wix_state) \<and>
   ZipExtract ''d/Downloads/__wix.zip'' ''d/Downloads/__wix'' \<in> set (trace wix_state) \<and>
   fetch_7zip unpacking_world ''d/Downloads'' fresh_state =
     (Inr ''d/Downloads/_7z/7za.exe'', tools_state) \<and>
   \<not> isdir (fs fresh_state) ''d/Downloads/_7z'' \<and>
   Subprocess [''d/Downloads/__7zr.exe'', ''x'', ''d/Downloads/7z2301-extra.7z'',
               ''-od/Downloads/_7z'', ''-aoa''] \<in> set (trace tools_state) \<and>
   \<not> isfile (fs fresh_state) ''d/Downloads/__7zr.exe'' \<and>
   download_file unpacking_world ''https://7-zip.org/a/7zr.exe'' ''d/Downloads/__7zr.exe''
     fresh_state = (Inr ''d/Downloads/__7zr.exe'', exe_state) \<and>
   isfile (fs exe_state) ''d/Downloads/__7zr.exe'' \<and>
   fetch_7zip unpacking_world ''d/Downloads'' fresh_state =
     fetch_7zip unpacking_world ''d/Downloads'' exe_state \<and>
   join (join ''d'' [''Downloads'']) [''__wix''] = ''d/Downloads/__wix'' \<and>
   join (join ''d'' [''Downloads'']) [''_7z''] = ''d/Downloads/_7z'' \<and>
   join (join ''d'' [''Downloads'']) [''__7zr.exe''] = ''d/Downloads/__7zr.exe''"
proof -
  have nd: "\<not> isdir (fs fresh_state) ''d/Downloads/_7z''"
    and nf: "\<not> isfile (fs fresh_state) ''d/Downloads/__7zr.exe''"
    by (simp_all add: isdir_def isfile_def fresh_state_def fresh_fs_def)
  from tool_cache_paths [of unpacking_world "''d/Downloads''" fresh_state
      "''d/Downloads/__wix''" wix_state "''d/Downloads/_7z/7za.exe''" tools_state
      "''d/Downloads/__7zr.exe''" exe_state "''d''"]
    fetch_wix_fresh fetch_7zip_fresh download_7zr_fresh nd nf
  show ?thesis by (simp add: join_def join2_def)
qed

text \<open>
  C10. When a turn of the generator yields for a catalog entry (the entry passed the
  age filter and \<^verbatim>\<open>download_file\<close> returned), the pair is the version and the path
  \<^verbatim>\<open><version>_<basename of the URL>\<close> in the download directory, and that path is a
  plain file. If the body of the loop then skips the entry, because its output directory
  is populated or because the major version is 10, the installer is still a plain file
  and the output directory is a directory afterwards: it was made before the checks.
\<close>

theorem installer_and_directory_before_skip:
  assumes yield: "fetch_runtimes_next w download_directory include_old_versions (ver, uri) s =
                    (Inr (Some (v, installer)), s1)"
    and finished: "fetch_all_body w base_directory download_directory wix_tool_location
                     ver installer s1 = (Inr (), s2)"
    and skip: "populated (fs s1) (join base_directory [''vcruntime_'' @ ver]) \<or>
               py_int (major_text ver) = Inr 10"
  shows "v = ver \<and>
         installer = join download_directory [ver @ ''_'' @ basename uri] \<and>
         isfile (fs s1) installer \<and>
         isfile (fs s2) installer \<and>
         isdir (fs s2) (join base_directory [''vcruntime_'' @ ver])"
proof -
  let ?out = "join base_directory [''vcruntime_'' @ ver]"
  let ?body = "fetch_all_body w base_directory download_directory wix_tool_location
                 ver installer s1"
  from fetch_runtimes_next_yield [OF yield]
  have v: "v = ver"
    and dl: "download_file w uri (join download_directory [ver @ ''_'' @ basename uri]) s =
               (Inr installer, s1)"
    by simp_all
  from download_file_result [OF dl]
  have dest: "installer = join download_directory [ver @ ''_'' @ basename uri]"
    and file1: "isfile (fs s1) installer" by simp_all
  from file1 obtain c where c: "fs s1 installer = Some (File c)" by (auto simp: isfile_iff)
  obtain r s1' where ens: "ensure_directory ?out s1 = (r, s1')"
    by (cases "ensure_directory ?out s1")
  obtain u where r: "r = Inr u"
    using finished ens by (cases r) (simp_all add: fetch_all_body_def Let_def and_then_def)
  obtain m where m: "py_int (major_text ver) = Inr m"
    using finished ens r
    by (cases "py_int (major_text ver)") (simp_all add: fetch_all_body_def Let_def and_then_def)
  from ensure_directory_keeps_file [OF c, of ?out] ens
  have c': "fs s1' installer = Some (File c)" by simp
  have "fs s2 installer = Some (File c) \<and> isdir (fs s2) ?out"
  proof (cases "populated (fs s1) ?out")
    case True
    from fetch_all_body_populated [OF m True, of w download_directory wix_tool_location installer]
      finished
    have "fs s2 = fs s1" by auto
    moreover from True have "isdir (fs s1) ?out"
      by (auto simp: populated_def isdir_def split: option.splits node.splits)
    ultimately show ?thesis using c by simp
  next
    case False
    with skip have ten: "py_int (major_text ver) = Inr 10" by simp
    from ens r have ens': "ensure_directory ?out s1 = (Inr u, s1')" by simp
    from fetch_all_body_empty_directory [OF ten ens' False,
        of w download_directory wix_tool_location installer] finished
    have "fs s2 = fs s1'" by (auto simp: print_def)
    moreover from ensure_directory_empty [OF ens' False] have "isdir (fs s1') ?out"
      by (simp add: isdir_def)
    ultimately show ?thesis using c' by simp
  qed
  with v dest file1 show ?thesis by (simp add: isfile_iff)
qed

theorem installer_and_directory_before_skip_witness:
  "fetch_runtimes_next idle_world ''d/Downloads'' True (''10.0.40219.32503'', url_2010)
       fresh_state =
     (Inr (Some (''10.0.40219.32503'', ''d/Downloads/10.0.40219.32503_vcredist_x64.exe'')),
      downloaded_2010) \<and>
   fetch_all_body idle_world ''d'' ''d/Downloads'' ''d/Downloads/__wix'' ''10.0.40219.32503''
       ''d/Downloads/10.0.40219.32503_vcredist_x64.exe'' downloaded_2010 =
     (Inr (), skipped_2010) \<and>
   py_int (major_text ''10.0.40219.32503'') = Inr 10 \<and>
   fs fresh_state ''d/vcruntime_10.0.40219.32503'' = None \<and>
   isfile (fs skipped_2010) ''d/Downloads/10.0.40219.32503_vcredist_x64.exe'' \<and>
   isdir (fs skipped_2010) ''d/vcruntime_10.0.40219.32503''"
proof -
  have y: "fetch_runtimes_next idle_world ''d/Downloads'' True (''10.0.40219.32503'', url_2010)
       fresh_state =
     (Inr (Some (''10.0.40219.32503'', ''d/Downloads/10.0.40219.32503_vcredist_x64.exe'')),
      downloaded_2010)"
    by (simp add: fetch_runtimes_next_def run_eval path_eval fs_eval idle_world_def
        fresh_state_def fresh_fs_def downloaded_2010_def url_2010_def fun_upd_twist)
  have m: "py_int (major_text ''10.0.40219.32503'') = Inr 10"
    by (simp add: path_eval int_eval)
  have b: "fetch_all_body idle_world ''d'' ''d/Downloads'' ''d/Downloads/__wix''
       ''10.0.40219.32503'' ''d/Downloads/10.0.40219.32503_vcredist_x64.exe'' downloaded_2010 =
     (Inr (), skipped_2010)"
    by (simp add: fetch_all_body_def Let_def m run_eval fs_eval join_def join2_def split_path_def
        basename_def rstrip_sep_def makedirs_split_def
        fresh_fs_def downloaded_2010_def skipped_2010_def fun_upd_twist)
  have n: "fs fresh_state ''d/vcruntime_10.0.40219.32503'' = None"
    by (simp add: fresh_state_def fresh_fs_def)
  have u: "basename url_2010 = ''vcredist_x64.exe''"
    by (simp add: basename_def url_2010_def)
  from installer_and_directory_before_skip [OF y b] m y b n
  show ?thesis by (simp add: join_def join2_def u)
qed

end
